(* ===== verification/Prelude.thy ===== *)
theory Prelude
  imports Complex_Main "HOL-Library.Stream"
begin

text \<open>
  Shared vocabulary of the development: the names of the model's types, the
  collections of facts the component theories add to, and the generic algebra of
  the ``nimm sum'' (the bitwise exclusive or of a list of Python integers) that the
  decision engine, the mistake injector and the game invariants all rest on, and the
  count of residues behind the uniformity of the random choices.
  Python integers are unbounded and signed, so heap sizes are \<open>int\<close>; Python's
  \<open>^\<close> on \<open>int\<close> is the two's complement exclusive or, which is exactly
  \<open>XOR\<close> on HOL's \<open>int\<close>.
\<close>

unbundle bit_operations_syntax

named_theorems heap_simps \<open>rewrite rules for heap lists after a move\<close>

type_synonym heap_list = "int list"

text \<open>A move is a pair (heap index, number of stones), as the source's \<open>[heap, stones_taken]\<close>.\<close>

type_synonym move = "nat \<times> int"

text \<open>The random source: an infinite stream of raw draws, consumed one per call.\<close>

type_synonym rng = "nat stream"

definition xor_list :: "int list \<Rightarrow> int" where
  "xor_list hs = fold (\<lambda>h s. s XOR h) hs 0"

text \<open>
  Both scans of the decision engine are a \<open>for\<close> loop over \<open>enumerate(heaps)\<close>
  that returns at the first heap passing a test; \<open>first_index\<close> is that search.
\<close>

fun first_index :: "('a \<Rightarrow> bool) \<Rightarrow> 'a list \<Rightarrow> nat option" where
  "first_index P [] = None"
| "first_index P (x # xs) = (if P x then Some 0 else map_option Suc (first_index P xs))"

subsection \<open>Exclusive or of a list\<close>

lemma fold_xor_acc: "fold (\<lambda>h s. s XOR h) hs a = a XOR xor_list hs"
proof (induction hs arbitrary: a)
  case Nil
  then show ?case by (simp add: xor_list_def)
next
  case (Cons h hs)
  have "fold (\<lambda>h s. s XOR h) hs h = h XOR xor_list hs" by (rule Cons.IH)
  with Cons.IH [of "a XOR h"] show ?case by (simp add: xor_list_def xor.assoc)
qed

lemma xor_list_Nil [simp]: "xor_list [] = 0"
  by (simp add: xor_list_def)

lemma xor_list_Cons [simp]: "xor_list (h # hs) = h XOR xor_list hs"
  using fold_xor_acc [of hs h] by (simp add: xor_list_def)

lemma xor_list_append: "xor_list (xs @ ys) = xor_list xs XOR xor_list ys"
  by (induction xs) (simp_all add: xor.assoc)

lemma xor_list_update [heap_simps]:
  "i < length hs \<Longrightarrow> xor_list (hs[i := v]) = xor_list hs XOR hs ! i XOR v"
proof (induction hs arbitrary: i)
  case Nil
  then show ?case by simp
next
  case (Cons h hs)
  then show ?case
    by (cases i) (simp_all add: xor.assoc xor.commute xor.left_commute)
qed

lemma xor_eq_0_iff: "(a::int) XOR b = 0 \<longleftrightarrow> a = b"
  by (metis xor.assoc xor.right_neutral xor_self_eq)

lemma xor_list_nonneg: "\<forall>h\<in>set hs. 0 \<le> h \<Longrightarrow> 0 \<le> xor_list hs"
  by (induction hs) auto

lemma xor_list_replicate_0 [simp]: "xor_list (replicate n 0) = 0"
  by (induction n) simp_all

lemma bit_xor_list: "\<forall>h\<in>set hs. \<not> bit h k \<Longrightarrow> \<not> bit (xor_list hs) k"
  by (induction hs) (auto simp: bit_xor_iff)

text \<open>
  The arithmetic fact behind the winning move: if \<open>k\<close> is the highest set bit of
  \<open>s\<close> and \<open>a\<close> has bit \<open>k\<close> set, then \<open>a XOR s\<close> clears that bit and only
  changes lower ones, so it is smaller than \<open>a\<close>.
\<close>

lemma xor_less_self:
  "0 \<le> a \<Longrightarrow> 0 \<le> s \<Longrightarrow> bit a k \<Longrightarrow> bit s k \<Longrightarrow> s < 2 ^ Suc k \<Longrightarrow> a XOR s < (a::int)"
proof (induction k arbitrary: a s)
  case 0
  then have "s = 1" by (simp add: bit_0) presburger
  with 0 show ?case by (simp add: xor_one_eq bit_0)
next
  case (Suc k)
  have "a div 2 XOR s div 2 < a div 2"
    using Suc.prems by (intro Suc.IH) (simp_all add: bit_Suc)
  then show ?case
    by (subst xor_int_rec) (use Suc.prems in \<open>simp; linarith\<close>)
qed

lemma high_bit_exists: "0 < (s::int) \<Longrightarrow> \<exists>k. bit s k \<and> s < 2 ^ Suc k"
proof (induction "nat s" arbitrary: s rule: less_induct)
  case less
  show ?case
  proof (cases "s = 1")
    case True
    then show ?thesis by (intro exI [of _ 0]) (simp add: bit_0)
  next
    case False
    with less.prems have "0 < s div 2" "nat (s div 2) < nat s" by simp_all
    then obtain k where "bit (s div 2) k" "s div 2 < 2 ^ Suc k"
      using less.hyps by blast
    then show ?thesis by (intro exI [of _ "Suc k"]) (simp add: bit_Suc)
  qed
qed

text \<open>
  The guarantee of the spec's section 4.1: when the nimm sum of non-negative heaps is
  not zero, some heap is ``qualifying'': its exclusive or with the sum is smaller.
\<close>

lemma qualifying_heap_exists:
  assumes "\<forall>h\<in>set hs. 0 \<le> h" and "xor_list hs \<noteq> 0"
  shows "\<exists>i<length hs. hs ! i XOR xor_list hs < hs ! i"
proof -
  let ?s = "xor_list hs"
  have "0 < ?s" using assms xor_list_nonneg [of hs] by simp
  then obtain k where k: "bit ?s k" "?s < 2 ^ Suc k"
    using high_bit_exists by blast
  then obtain h where "h \<in> set hs" "bit h k"
    using bit_xor_list by blast
  then obtain i where i: "i < length hs" "hs ! i = h"
    by (auto simp: in_set_conv_nth)
  have "h XOR ?s < h"
    using xor_less_self [of h ?s k] k \<open>0 < ?s\<close> \<open>bit h k\<close> assms(1) \<open>h \<in> set hs\<close>
    by simp
  with i show ?thesis by blast
qed

lemma xor_nonneg_of_nonneg [simp]: "0 \<le> (a::int) \<Longrightarrow> 0 \<le> b \<Longrightarrow> 0 \<le> a XOR b"
  by simp

subsection \<open>Lists of heap sizes\<close>

lemma sum_list_update [heap_simps]:
  "i < length hs \<Longrightarrow> sum_list (hs[i := v]) = sum_list hs - hs ! i + (v::int)"
proof (induction hs arbitrary: i)
  case Nil
  then show ?case by simp
next
  case (Cons h hs)
  then show ?case by (cases i) simp_all
qed

lemma replicate_numeral: "replicate (numeral k) x = x # replicate (pred_numeral k) x"
  by (simp add: numeral_eq_Suc)

lemma sum_list_le_length_mult:
  "\<forall>h\<in>set hs. h \<le> (M::int) \<Longrightarrow> sum_list hs \<le> int (length hs) * M"
  by (induction hs) (auto simp: algebra_simps)

lemma nonneg_sum_list_0_iff:
  "\<forall>h\<in>set hs. 0 \<le> (h::int) \<Longrightarrow> sum_list hs = 0 \<longleftrightarrow> (\<forall>h\<in>set hs. h = 0)"
  by (induction hs) (auto simp: add_nonneg_eq_0_iff sum_list_nonneg)

lemma all_zero_xor_list: "\<forall>h\<in>set hs. h = 0 \<Longrightarrow> xor_list hs = 0"
  by (induction hs) auto

subsection \<open>Counting residues\<close>

text \<open>Among \<open>n * m\<close> consecutive naturals from 0, each residue modulo \<open>m\<close> occurs \<open>n\<close> times.\<close>

lemma card_mod_class:
  assumes "r < (m::nat)"
  shows "card {d. d < n * m \<and> d mod m = r} = n"
proof -
  have "{d. d < n * m \<and> d mod m = r} = (\<lambda>j. j * m + r) ` {..<n}"
  proof (intro set_eqI iffI)
    fix d assume "d \<in> {d. d < n * m \<and> d mod m = r}"
    then have d: "d < n * m" "d mod m = r" by simp_all
    have "d = d div m * m + r" using d(2) div_mult_mod_eq [of d m] by simp
    moreover have "d div m < n" using d(1) by (simp add: less_mult_imp_div_less)
    ultimately show "d \<in> (\<lambda>j. j * m + r) ` {..<n}" by blast
  next
    fix d assume "d \<in> (\<lambda>j. j * m + r) ` {..<n}"
    then obtain j where j: "j < n" "d = j * m + r" by blast
    have "j * m + r < (j + 1) * m" using assms by simp
    also have "\<dots> \<le> n * m" using j(1) by (intro mult_right_mono) simp_all
    finally show "d \<in> {d. d < n * m \<and> d mod m = r}" using j assms by simp
  qed
  moreover have "inj_on (\<lambda>j. j * m + r) {..<n}"
    using assms by (intro inj_onI) simp
  ultimately show ?thesis by (simp add: card_image)
qed

subsection \<open>The first element of a list with a property\<close>

lemma first_index_None_iff: "first_index P xs = None \<longleftrightarrow> (\<forall>x\<in>set xs. \<not> P x)"
  by (induction xs) auto

lemma first_index_Some:
  "first_index P xs = Some i \<Longrightarrow> i < length xs \<and> P (xs ! i) \<and> (\<forall>j<i. \<not> P (xs ! j))"
proof (induction xs arbitrary: i)
  case Nil
  then show ?case by simp
next
  case (Cons x xs)
  show ?case
  proof (cases "P x")
    case True
    with Cons.prems show ?thesis by simp
  next
    case False
    with Cons.prems obtain i' where i': "first_index P xs = Some i'" "i = Suc i'" by auto
    from Cons.IH [OF i'(1)] have "\<forall>j<i. \<not> P ((x # xs) ! j)"
      using False i'(2) by (auto simp: less_Suc_eq_0_disj)
    with Cons.IH [OF i'(1)] i'(2) show ?thesis by simp
  qed
qed

lemma first_index_eqI:
  "i < length xs \<Longrightarrow> P (xs ! i) \<Longrightarrow> \<forall>j<i. \<not> P (xs ! j) \<Longrightarrow> first_index P xs = Some i"
proof (induction xs arbitrary: i)
  case Nil
  then show ?case by simp
next
  case (Cons x xs)
  show ?case
  proof (cases i)
    case 0
    with Cons.prems show ?thesis by simp
  next
    case (Suc i')
    with Cons.prems have "\<not> P x" by auto
    moreover from Suc Cons.prems have "first_index P xs = Some i'"
      by (intro Cons.IH) auto
    ultimately show ?thesis using Suc by simp
  qed
qed

lemma first_index_exists: "x \<in> set xs \<Longrightarrow> P x \<Longrightarrow> \<exists>i. first_index P xs = Some i"
  using first_index_None_iff [of P xs] by (cases "first_index P xs") auto

end
