(* ===== verification/Builtins.thy ===== *)
theory Builtins
  imports Prelude
begin

text \<open>
  The parts of the Python runtime the program calls: \<open>random.randint\<close>,
  \<open>max\<close>, \<open>list.index\<close>, list indexing, \<open>str.isdigit\<close>, \<open>int\<close> of a digit
  string, \<open>str\<close> of a natural number, and \<open>input\<close> (floats are in theory PyFloat). They are not
  code of the repository; each is modelled by what the program relies on, with the
  exceptions it can raise written as values of \<open>py_error\<close>.
\<close>

datatype py_error = ValueError | IndexError | EOFError | OverflowError

text \<open>
  \<open>random.randint(lo, hi)\<close> returns an integer of \<open>[lo, hi]\<close> and raises
  ValueError on an empty range. The random source is a stream of raw draws; a draw
  \<open>d\<close> gives \<open>lo + d mod (hi - lo + 1)\<close>, so every value of the range is the
  result of some draw (\<open>randint_onto\<close>) and no other value ever is; and when the
  raw draws are uniform modulo the size of the range, so are the values: among the
  draws \<open>0\<close> to \<open>n * (hi - lo + 1) - 1\<close> each value is the result of exactly \<open>n\<close>
  (\<open>randint_uniform\<close>).
\<close>

definition randint :: "int \<Rightarrow> int \<Rightarrow> rng \<Rightarrow> py_error + int \<times> rng" where
  "randint lo hi ds =
     (if hi < lo then Inl ValueError else Inr (lo + int (shd ds) mod (hi - lo + 1), stl ds))"

text \<open>\<open>max(xs)\<close> raises ValueError on an empty list.\<close>

definition py_max :: "int list \<Rightarrow> py_error + int" where
  "py_max xs = (case xs of [] \<Rightarrow> Inl ValueError | x # xs' \<Rightarrow> Inr (fold max xs' x))"

text \<open>\<open>xs.index(v)\<close>: the first position holding \<open>v\<close>, ValueError if none.\<close>

fun py_index :: "int list \<Rightarrow> int \<Rightarrow> py_error + nat" where
  "py_index [] v = Inl ValueError"
| "py_index (x # xs) v =
     (if x = v then Inr 0 else (case py_index xs v of Inl e \<Rightarrow> Inl e | Inr i \<Rightarrow> Inr (Suc i)))"

text \<open>\<open>xs[i]\<close> for a non-negative index, IndexError beyond the end.\<close>

definition py_getitem :: "int list \<Rightarrow> nat \<Rightarrow> py_error + int" where
  "py_getitem xs i = (if i < length xs then Inr (xs ! i) else Inl IndexError)"

text \<open>
  \<open>str.isdigit\<close> on the ASCII range (the model's characters are bytes), and
  \<open>int(s)\<close> on a string of decimal digits, the only strings the program passes
  to \<open>int\<close> (every call sits behind an \<open>isdigit\<close> test).
\<close>

definition is_digit_char :: "char \<Rightarrow> bool" where
  "is_digit_char c \<longleftrightarrow> (48::nat) \<le> of_char c \<and> (of_char c::nat) \<le> 57"

definition py_isdigit :: "string \<Rightarrow> bool" where
  "py_isdigit s \<longleftrightarrow> s \<noteq> [] \<and> list_all is_digit_char s"

definition py_int :: "string \<Rightarrow> int" where
  "py_int s = foldl (\<lambda>n c. 10 * n + (int (of_char c) - 48)) 0 s"

text \<open>\<open>str(n)\<close> of a natural number: its decimal digits.\<close>

fun py_str :: "nat \<Rightarrow> string" where
  "py_str n = (if n < 10 then [char_of (48 + n)] else py_str (n div 10) @ [char_of (48 + n mod 10)])"

declare py_str.simps [simp del]

subsection \<open>Facts about the builtins\<close>

lemma randint_range:
  "randint lo hi ds = Inr (v, ds') \<Longrightarrow> lo \<le> v \<and> v \<le> hi \<and> ds' = stl ds"
  using pos_mod_bound [of "hi - lo + 1" "int (shd ds)"] pos_mod_sign [of "hi - lo + 1" "int (shd ds)"]
  by (auto simp: randint_def split: if_splits)

lemma randint_error: "randint lo hi ds = Inl e \<longleftrightarrow> hi < lo \<and> e = ValueError"
  by (auto simp: randint_def)

lemma randint_onto:
  "lo \<le> v \<Longrightarrow> v \<le> hi \<Longrightarrow> randint lo hi (nat (v - lo) ## ds) = Inr (v, ds)"
  by (simp add: randint_def)

lemma randint_uniform:
  assumes "lo \<le> v" and "v \<le> hi"
  shows "card {d. d < n * nat (hi - lo + 1) \<and> (\<exists>ds'. randint lo hi (d ## ds) = Inr (v, ds'))} = n"
proof -
  have "(\<exists>ds'. randint lo hi (d ## ds) = Inr (v, ds')) \<longleftrightarrow> d mod nat (hi - lo + 1) = nat (v - lo)" for d
  proof -
    have "int d mod (hi - lo + 1) = int (d mod nat (hi - lo + 1))" using assms by (simp add: zmod_int)
    then show ?thesis using assms by (auto simp: randint_def)
  qed
  then show ?thesis using card_mod_class [of "nat (v - lo)" "nat (hi - lo + 1)" n] assms by simp
qed

lemma py_index_Inr: "py_index xs v = Inr i \<Longrightarrow> i < length xs \<and> xs ! i = v"
  by (induction xs v arbitrary: i rule: py_index.induct) (auto split: if_splits sum.splits)

lemma py_index_first: "py_index xs v = Inr i \<Longrightarrow> j < i \<Longrightarrow> xs ! j \<noteq> v"
proof (induction xs v arbitrary: i j rule: py_index.induct)
  case (1 v)
  then show ?case by simp
next
  case (2 x xs v)
  then show ?case
    by (cases j) (auto split: if_splits sum.splits)
qed

lemma py_index_mem: "v \<in> set xs \<Longrightarrow> \<exists>i. py_index xs v = Inr i"
proof (induction xs)
  case Nil
  then show ?case by simp
next
  case (Cons x xs)
  then show ?case by (cases "x = v") (auto split: sum.splits)
qed

lemma fold_max_mem: "fold max xs (x::int) \<in> set (x # xs)"
proof (induction xs arbitrary: x)
  case Nil
  then show ?case by simp
next
  case (Cons y ys)
  then show ?case by (cases "x \<le> y") (auto simp: max_def)
qed

lemma fold_max_ge: "y \<in> set (x # xs) \<Longrightarrow> y \<le> fold max xs (x::int)"
proof (induction xs arbitrary: x y)
  case Nil
  then show ?case by simp
next
  case (Cons z zs)
  have m: "max z x \<le> fold max zs (max z x)" by (rule Cons.IH) simp
  show ?case
  proof (cases "y \<in> set zs")
    case True
    then show ?thesis using Cons.IH [of y "max z x"] by simp
  next
    case False
    with Cons.prems have "y \<le> max z x" by auto
    from this m have "y \<le> fold max zs (max z x)" by (rule order_trans)
    then show ?thesis by simp
  qed
qed

lemma py_max_Inr:
  "py_max xs = Inr m \<Longrightarrow> m \<in> set xs \<and> (\<forall>y\<in>set xs. y \<le> m)"
proof (cases xs)
  case Nil
  then show "py_max xs = Inr m \<Longrightarrow> ?thesis" by (simp add: py_max_def)
next
  case (Cons x xs')
  then show "py_max xs = Inr m \<Longrightarrow> ?thesis"
    using fold_max_mem [of xs' x] fold_max_ge [of _ x xs'] by (auto simp: py_max_def)
qed

lemma py_max_nonempty: "xs \<noteq> [] \<Longrightarrow> \<exists>m. py_max xs = Inr m"
  by (simp add: py_max_def split: list.splits)

lemma py_getitem_Inr [simp]: "i < length xs \<Longrightarrow> py_getitem xs i = Inr (xs ! i)"
  by (simp add: py_getitem_def)

lemma is_digit_char_of_digit: "d < (10::nat) \<Longrightarrow> is_digit_char (char_of (48 + d))"
  by (simp add: is_digit_char_def of_char_of)

lemma of_char_digit: "d < (10::nat) \<Longrightarrow> int (of_char (char_of (48 + d))) - 48 = int d"
  by (simp add: of_char_of)

text \<open>The definitions that evaluate the parsing of a concrete input line.\<close>

lemmas py_parse_defs = py_isdigit_def is_digit_char_def py_int_def

lemma py_int_snoc: "py_int (s @ [c]) = 10 * py_int s + (int (of_char c) - 48)"
  by (simp add: py_int_def)

text \<open>\<open>int(str(n)) == n\<close>, and \<open>str(n)\<close> passes \<open>isdigit\<close>.\<close>

lemma py_str_roundtrip: "py_isdigit (py_str n) \<and> py_int (py_str n) = int n"
proof (induction n rule: py_str.induct)
  case (1 n)
  show ?case
  proof (cases "n < 10")
    case True
    then show ?thesis
      by (simp add: py_str.simps [of n] py_isdigit_def py_int_def is_digit_char_of_digit of_char_digit)
  next
    case False
    then have IH: "py_isdigit (py_str (n div 10)) \<and> py_int (py_str (n div 10)) = int (n div 10)"
      using "1.IH" by simp
    have "int n = int (10 * (n div 10) + n mod 10)" by simp
    then have "int n = 10 * int (n div 10) + int (n mod 10)" by linarith
    with False IH show ?thesis
      by (simp add: py_str.simps [of n] py_isdigit_def py_int_snoc is_digit_char_of_digit of_char_digit)
  qed
qed

lemma py_int_nonneg: "list_all is_digit_char s \<Longrightarrow> 0 \<le> py_int s"
proof (induction s rule: rev_induct)
  case Nil
  then show ?case by (simp add: py_int_def)
next
  case (snoc c s)
  then show ?case by (simp add: py_int_snoc is_digit_char_def)
qed


end
