(* ===== verification/PyFloat.thy ===== *)
theory PyFloat
  imports Builtins
begin

text \<open>
  Python's floats as IEEE-754 doubles, as far as the program uses them: the trigger
  bounds \<open>int(ERROR_MIN*sum(heaps))\<close> and \<open>int(ERROR_MAX*sum(heaps))\<close> of
  \<open>setup_game\<close> (src/unbeatable.py, line 221). A finite double is \<open>Finite m e\<close>,
  the value \<open>m * 2 ^ e\<close>; \<open>float * int\<close> converts the int to a double
  (\<open>float_of_int\<close>, OverflowError beyond the largest double), multiplies exactly
  and rounds to 53 significant bits, to nearest with ties to even
  (\<open>round_float\<close>; a result of \<open>2 ^ 1024\<close> or more is infinite), and \<open>int()\<close>
  truncates towards zero (\<open>float_trunc\<close>; OverflowError on an infinity, ValueError on
  NaN). The literal \<open>0.3\<close> is the double nearest to it, \<open>Finite 5404319552844595 (-54)\<close>,
  slightly below \<open>3/10\<close>. The rounding is executable on integers; the lemmas show it
  monotone in the exact value (\<open>round_val_mono_scaled\<close>), which makes the two trigger
  bounds ordered and free of exceptions (\<open>py_int_float_times_mono\<close>).
\<close>

text \<open>The number of binary digits of a natural number.\<close>


fun nat_bitlen :: "nat \<Rightarrow> nat" where
  "nat_bitlen n = (if n = 0 then 0 else Suc (nat_bitlen (n div 2)))"

declare nat_bitlen.simps [simp del]

text \<open>
  \<open>a / 2 ^ s\<close> rounded to the nearest integer, ties to the even one, and the number of
  low bits a 53-bit significand drops from \<open>a\<close>; \<open>round_val a\<close> is \<open>a\<close> rounded to
  53 significant bits.
\<close>

definition round_even :: "nat \<Rightarrow> nat \<Rightarrow> nat" where
  "round_even a s =
     (if s = 0 then a
      else (let q = a div 2 ^ s; r = a mod 2 ^ s; h = 2 ^ (s - 1)
            in if h < r \<or> (r = h \<and> odd q) then q + 1 else q))"

definition round_shift :: "nat \<Rightarrow> nat" where
  "round_shift a = nat_bitlen a - 53"

definition round_val :: "nat \<Rightarrow> nat" where
  "round_val a = round_even a (round_shift a) * 2 ^ round_shift a"


text \<open>A double: finite with its exact value, an infinity with its sign, or NaN.\<close>

datatype py_float = Finite int int | Infinity bool | NaN

definition float_val :: "py_float \<Rightarrow> rat" where
  "float_val x = (case x of Finite m e \<Rightarrow> of_int m * power_int 2 e | _ \<Rightarrow> 0)"

definition round_float :: "int \<Rightarrow> int \<Rightarrow> py_float" where
  "round_float n e =
     (let a = nat \<bar>n\<bar>; s = round_shift a; m = round_even a s in
      if m \<noteq> 0 \<and> 1024 < int (nat_bitlen m) + int s + e then Infinity (0 < n)
      else Finite (sgn n * int m) (int s + e))"

definition float_finite :: "py_float \<Rightarrow> bool" where
  "float_finite x = (case x of Finite m e \<Rightarrow> True | _ \<Rightarrow> False)"

text \<open>\<open>float(n)\<close>, \<open>x * y\<close>, \<open>int(x)\<close>, and the expression \<open>int(x * n)\<close> of line 221.\<close>

definition float_of_int :: "int \<Rightarrow> py_error + py_float" where
  "float_of_int n = (case round_float n 0 of Finite m e \<Rightarrow> Inr (Finite m e) | _ \<Rightarrow> Inl OverflowError)"

definition float_mul :: "py_float \<Rightarrow> py_float \<Rightarrow> py_float" where
  "float_mul x y =
     (case (x, y) of
        (Finite m1 e1, Finite m2 e2) \<Rightarrow> round_float (m1 * m2) (e1 + e2)
      | (Finite m e, Infinity b) \<Rightarrow> (if m = 0 then NaN else Infinity (b = (0 < m)))
      | (Infinity b, Finite m e) \<Rightarrow> (if m = 0 then NaN else Infinity (b = (0 < m)))
      | (Infinity b1, Infinity b2) \<Rightarrow> Infinity (b1 = b2)
      | _ \<Rightarrow> NaN)"

definition float_trunc :: "py_float \<Rightarrow> py_error + int" where
  "float_trunc x =
     (case x of
        Finite m e \<Rightarrow> Inr (if 0 \<le> e then m * 2 ^ nat e else sgn m * (\<bar>m\<bar> div 2 ^ nat (- e)))
      | Infinity b \<Rightarrow> Inl OverflowError
      | NaN \<Rightarrow> Inl ValueError)"

definition py_int_float_times :: "py_float \<Rightarrow> int \<Rightarrow> py_error + int" where
  "py_int_float_times x n =
     (case float_of_int n of Inl e \<Rightarrow> Inl e | Inr y \<Rightarrow> float_trunc (float_mul x y))"

lemmas float_eval = py_int_float_times_def float_of_int_def round_float_def round_shift_def
  round_even_def float_mul_def float_trunc_def Let_def

lemma float_finite_Finite [simp]: "float_finite (Finite m e)"
  by (simp add: float_finite_def)

lemma float_val_Finite_neg [simp]: "float_val (Finite m (- numeral k)) = of_int m / 2 ^ numeral k"
  by (simp add: float_val_def power_int_minus_divide)

lemma nat_bitlen_0 [simp]: "nat_bitlen 0 = 0"
  by (simp add: nat_bitlen.simps)

lemma nat_bitlen_1 [simp]: "nat_bitlen (Suc 0) = 1"
  by (simp add: nat_bitlen.simps)

lemma nat_bitlen_numeral [simp]: "nat_bitlen (numeral k) = Suc (nat_bitlen (numeral k div 2))"
  by (simp add: nat_bitlen.simps [of "numeral k"])

lemma nat_bitlen_pos: "0 < n \<Longrightarrow> 0 < nat_bitlen n"
  by (simp add: nat_bitlen.simps [of n])

lemma nat_bitlen_bounds: "0 < n \<Longrightarrow> 2 ^ (nat_bitlen n - 1) \<le> n \<and> n < 2 ^ nat_bitlen n"
proof (induction n rule: nat_bitlen.induct)
  case (1 n)
  show ?case
  proof (cases "n div 2 = 0")
    case True
    with "1.prems" have "n = 1" by linarith
    then show ?thesis by (simp add: nat_bitlen.simps)
  next
    case False
    with "1.IH" "1.prems" have ih: "2 ^ (nat_bitlen (n div 2) - 1) \<le> n div 2" "n div 2 < 2 ^ nat_bitlen (n div 2)"
      by simp_all
    have pos: "0 < nat_bitlen (n div 2)" using False by (simp add: nat_bitlen.simps)
    have "nat_bitlen n = Suc (nat_bitlen (n div 2))" using "1.prems" by (simp add: nat_bitlen.simps)
    moreover have "2 ^ nat_bitlen (n div 2) \<le> n"
      using ih(1) pos by (cases "nat_bitlen (n div 2)") auto
    moreover have "n < 2 ^ Suc (nat_bitlen (n div 2))" using ih(2) by simp
    ultimately show ?thesis by simp
  qed
qed

lemma nat_bitlen_le: "n < 2 ^ k \<Longrightarrow> nat_bitlen n \<le> k"
proof (cases "n = 0")
  case False
  assume n: "n < 2 ^ k"
  from nat_bitlen_bounds False have "2 ^ (nat_bitlen n - 1) \<le> n" by simp
  from le_less_trans [OF this n] have "nat_bitlen n - 1 < k" by simp
  moreover have "0 < nat_bitlen n" using False by (simp add: nat_bitlen.simps)
  ultimately show ?thesis by simp
qed (simp add: nat_bitlen.simps)

lemma nat_bitlen_mono: "a \<le> b \<Longrightarrow> nat_bitlen a \<le> nat_bitlen b"
proof (cases "b = 0")
  case False
  assume "a \<le> b"
  with nat_bitlen_bounds [of b] False have "a < 2 ^ nat_bitlen b" by simp
  then show ?thesis by (rule nat_bitlen_le)
qed simp

lemma nat_bitlen_double: "0 < a \<Longrightarrow> nat_bitlen (a * 2) = Suc (nat_bitlen a)"
  by (simp add: nat_bitlen.simps [of "a * 2"])

lemma nat_bitlen_shift: "0 < a \<Longrightarrow> nat_bitlen (a * 2 ^ d) = nat_bitlen a + d"
proof (induction d)
  case (Suc d)
  have "a * 2 ^ Suc d = a * 2 ^ d * 2" by simp
  moreover have "0 < a * 2 ^ d" using Suc.prems by simp
  ultimately show ?case using Suc by (simp only: nat_bitlen_double)
qed simp


lemma round_even_bounds: "a div 2 ^ s \<le> round_even a s \<and> round_even a s \<le> a div 2 ^ s + 1"
  by (simp add: round_even_def Let_def)

lemma round_even_mono:
  assumes "a \<le> b"
  shows "round_even a s \<le> round_even b s"
proof (cases "a div 2 ^ s < b div 2 ^ s")
  case True
  then show ?thesis using round_even_bounds [of a s] round_even_bounds [of b s] by linarith
next
  case False
  then have q: "a div 2 ^ s = b div 2 ^ s" using div_le_mono [OF assms, of "2 ^ s"] by linarith
  have "a div 2 ^ s * 2 ^ s + a mod 2 ^ s \<le> b div 2 ^ s * 2 ^ s + b mod 2 ^ s"
    using assms by (simp only: div_mult_mod_eq)
  then have "b div 2 ^ s * 2 ^ s + a mod 2 ^ s \<le> b div 2 ^ s * 2 ^ s + b mod 2 ^ s" unfolding q .
  then have r: "a mod 2 ^ s \<le> b mod 2 ^ s" by (rule add_le_imp_le_left)
  show ?thesis
    using q r by (auto simp: round_even_def Let_def)
qed

lemma round_even_upper:
  assumes "a < 2 ^ (s + k)"
  shows "round_even a s \<le> 2 ^ k"
proof -
  have "a div 2 ^ s < 2 ^ k"
    using assms by (simp add: div_less_iff_less_mult power_add mult.commute)
  then show ?thesis using round_even_bounds [of a s] by linarith
qed

lemma round_even_lower:
  assumes "2 ^ (s + k) \<le> a"
  shows "2 ^ k \<le> round_even a s"
proof -
  have "2 ^ (s + k) div 2 ^ s = (2::nat) ^ k" by (simp add: power_add)
  then have "2 ^ k \<le> a div 2 ^ s" using div_le_mono [OF assms, of "2 ^ s"] by simp
  then show ?thesis using round_even_bounds [of a s] by linarith
qed

lemma round_even_exact:
  assumes "s \<le> d"
  shows "round_even (a * 2 ^ d) s = a * 2 ^ (d - s)"
proof -
  have d: "a * 2 ^ d = a * 2 ^ (d - s) * 2 ^ s"
    using assms by (simp add: power_add [symmetric])
  show ?thesis
  proof (cases s)
    case (Suc t)
    have "(0::nat) < 2 ^ (s - 1)" by simp
    then show ?thesis by (simp add: round_even_def Let_def d Suc)
  qed (simp add: round_even_def)
qed

lemma round_even_shift: "round_even (a * 2 ^ d) (s + d) = round_even a s"
proof (cases s)
  case 0
  then show ?thesis using round_even_exact [of d d a] by (simp add: round_even_def)
next
  case (Suc t)
  have q: "a * 2 ^ d div 2 ^ (s + d) = a div 2 ^ s"
    by (simp add: power_add)
  have r: "a * 2 ^ d mod 2 ^ (s + d) = a mod 2 ^ s * 2 ^ d"
    by (simp add: power_add mult.commute mod_mult_mult1)
  have h: "(2::nat) ^ (s + d - 1) = 2 ^ (s - 1) * 2 ^ d"
    using Suc by (simp add: power_add [symmetric])
  have s0: "s \<noteq> 0" using Suc by simp
  show ?thesis unfolding round_even_def Let_def q r h using s0 by simp
qed


lemma round_val_small: "a \<le> 2 ^ 53 \<Longrightarrow> round_val a = a"
proof (cases "a < 2 ^ 53")
  case True
  then have "round_shift a = 0" using nat_bitlen_le [OF True] by (simp add: round_shift_def)
  then show ?thesis by (simp add: round_val_def round_even_def)
next
  case False
  assume "a \<le> 2 ^ 53"
  with False have a: "a = 1 * 2 ^ 53" by simp
  have "nat_bitlen (1 * 2 ^ 53) = 54" using nat_bitlen_shift [of 1 53] by (simp add: nat_bitlen.simps)
  then have "round_shift a = 1" using a by (simp add: round_shift_def)
  with a round_even_exact [of 1 53 1] show ?thesis by (simp add: round_val_def)
qed

lemma round_shift_bound: "a < 2 ^ (round_shift a + 53)"
proof (cases "a = 0")
  case False
  then have "a < 2 ^ nat_bitlen a" using nat_bitlen_bounds by simp
  also have "\<dots> \<le> 2 ^ (round_shift a + 53)" by (simp add: round_shift_def)
  finally show ?thesis .
qed simp

lemma round_val_mono:
  assumes "a \<le> b"
  shows "round_val a \<le> round_val b"
proof -
  have le: "round_shift a \<le> round_shift b"
    using nat_bitlen_mono [OF assms] by (simp add: round_shift_def)
  show ?thesis
  proof (cases "round_shift a = round_shift b")
    case True
    then show ?thesis using round_even_mono [OF assms] by (simp add: round_val_def)
  next
    case False
    with le have lt: "round_shift a < round_shift b" by simp
    then have b: "nat_bitlen b = round_shift b + 53" by (simp add: round_shift_def)
    then have "b \<noteq> 0" by (cases "b = 0") (simp_all add: nat_bitlen.simps)
    with nat_bitlen_bounds [of b] b have "2 ^ (round_shift b + 52) \<le> b" by (simp add: add.commute)
    then have "2 ^ 52 \<le> round_even b (round_shift b)" by (intro round_even_lower) simp
    then have "2 ^ 52 * 2 ^ round_shift b \<le> round_val b" by (simp add: round_val_def)
    moreover have "round_even a (round_shift a) \<le> 2 ^ 53"
      using round_shift_bound [of a] by (intro round_even_upper) (simp add: add.commute)
    then have "round_val a \<le> 2 ^ 53 * 2 ^ round_shift a" by (simp add: round_val_def)
    moreover have "(2::nat) ^ Suc (round_shift a) \<le> 2 ^ round_shift b"
      using lt by (intro power_increasing) simp_all
    then have "(2::nat) ^ 53 * 2 ^ round_shift a \<le> 2 ^ 52 * 2 ^ round_shift b" by simp
    ultimately show ?thesis by linarith
  qed
qed

lemma round_val_shift: "round_val (a * 2 ^ d) = round_val a * 2 ^ d"
proof (cases "a = 0")
  case False
  have L: "nat_bitlen (a * 2 ^ d) = nat_bitlen a + d" using False by (simp add: nat_bitlen_shift)
  show ?thesis
  proof (cases "53 \<le> nat_bitlen a")
    case True
    then have "round_shift (a * 2 ^ d) = round_shift a + d" by (simp add: L round_shift_def)
    then show ?thesis by (simp add: round_val_def round_even_shift power_add)
  next
    case False
    then have s0: "round_shift a = 0" by (simp add: round_shift_def)
    have sd: "round_shift (a * 2 ^ d) \<le> d" using False by (simp add: L round_shift_def)
    then have "round_even (a * 2 ^ d) (round_shift (a * 2 ^ d)) * 2 ^ round_shift (a * 2 ^ d) = a * 2 ^ d"
      by (simp add: round_even_exact power_add [symmetric])
    then show ?thesis using s0 by (simp add: round_val_def round_even_def)
  qed
qed (simp add: round_val_def round_shift_def round_even_def nat_bitlen.simps)

lemma round_val_pow2: "round_val (2 ^ k) = 2 ^ k"
  using round_val_shift [of 1 k] round_val_small [of 1] by simp


lemma pow2_split: "c \<le> e \<Longrightarrow> power_int (2::rat) e = of_nat (2 ^ nat (e - c)) * power_int 2 c"
proof -
  assume "c \<le> e"
  have "power_int (2::rat) e = power_int 2 ((e - c) + c)" by simp
  also have "\<dots> = power_int 2 (e - c) * power_int 2 c" by (rule power_int_add) simp
  also have "power_int (2::rat) (e - c) = 2 ^ nat (e - c)" using \<open>c \<le> e\<close> by (simp add: power_int_nonneg_exp)
  finally show ?thesis by simp
qed

lemma round_float_val:
  assumes "0 \<le> n" and "round_float n e = Finite m e'"
  shows "float_val (Finite m e') = of_nat (round_val (nat n)) * power_int 2 e"
proof (cases "n = 0")
  case True
  with assms show ?thesis
    by (simp add: round_float_def round_val_def round_shift_def round_even_def float_val_def)
next
  case False
  with assms have m: "m = int (round_even (nat n) (round_shift (nat n)))"
    and e': "e' = int (round_shift (nat n)) + e"
    by (auto simp: round_float_def Let_def split: if_splits)
  have "power_int (2::rat) (int (round_shift (nat n)) + e) = 2 ^ round_shift (nat n) * power_int 2 e"
    by (simp add: power_int_add)
  then show ?thesis by (simp add: float_val_def m e' round_val_def)
qed

lemma round_float_finite:
  assumes "0 \<le> n" and "of_nat (round_val (nat n)) * power_int (2::rat) e < 2 ^ 1024"
  shows "round_float n e = Finite (int (round_even (nat n) (round_shift (nat n)))) (int (round_shift (nat n)) + e)"
proof (cases "round_even (nat n) (round_shift (nat n)) = 0")
  case True
  then show ?thesis using assms(1) by (simp add: round_float_def Let_def)
next
  case False
  let ?m = "round_even (nat n) (round_shift (nat n))" and ?s = "round_shift (nat n)"
  have n: "0 < n"
    using False assms(1) by (cases "n = 0") (simp_all add: round_even_def round_shift_def)
  have "2 ^ (nat_bitlen ?m - 1) \<le> ?m" using nat_bitlen_bounds False by simp
  then have A: "(2::rat) ^ (nat_bitlen ?m - 1) \<le> of_nat ?m"
    by (metis of_nat_le_iff of_nat_numeral of_nat_power)
  have "power_int (2::rat) (int (nat_bitlen ?m - 1) + int ?s + e) = 2 ^ (nat_bitlen ?m - 1) * 2 ^ ?s * power_int 2 e"
    by (simp add: power_int_add)
  also have "\<dots> \<le> of_nat ?m * 2 ^ ?s * power_int 2 e"
    using A by (intro mult_right_mono) simp_all
  also have "\<dots> = of_nat (?m * 2 ^ ?s) * power_int 2 e" by simp
  also have "\<dots> < power_int 2 1024" using assms(2) by (simp add: round_val_def)
  finally have "int (nat_bitlen ?m - 1) + int ?s + e < 1024"
    by (rule power_int_le_imp_less_exp [rotated]) simp_all
  moreover have "0 < nat_bitlen ?m" using False by (simp add: nat_bitlen_pos)
  ultimately show ?thesis using n by (simp add: round_float_def Let_def)
qed

lemma round_val_mono_scaled:
  assumes "0 \<le> n" and "0 \<le> n'" and "of_int n * power_int (2::rat) e \<le> of_int n' * power_int 2 e'"
  shows "of_nat (round_val (nat n)) * power_int (2::rat) e \<le> of_nat (round_val (nat n')) * power_int 2 e'"
proof -
  define c where "c = min e e'"
  have ec: "power_int (2::rat) e = of_nat (2 ^ nat (e - c)) * power_int 2 c"
    and ec': "power_int (2::rat) e' = of_nat (2 ^ nat (e' - c)) * power_int 2 c"
    by (rule pow2_split, simp add: c_def)+
  have P: "0 < power_int (2::rat) c" by simp
  have "of_nat (nat n * 2 ^ nat (e - c)) * power_int (2::rat) c \<le> of_nat (nat n' * 2 ^ nat (e' - c)) * power_int 2 c"
    using assms by (simp add: ec ec' mult.assoc)
  then have "nat n * 2 ^ nat (e - c) \<le> nat n' * 2 ^ nat (e' - c)"
    using P by (simp only: mult_le_cancel_right_pos of_nat_le_iff)
  then have "round_val (nat n) * 2 ^ nat (e - c) \<le> round_val (nat n') * 2 ^ nat (e' - c)"
    using round_val_mono by (simp add: round_val_shift [symmetric])
  then have "of_nat (round_val (nat n) * 2 ^ nat (e - c)) * power_int (2::rat) c \<le>
             of_nat (round_val (nat n') * 2 ^ nat (e' - c)) * power_int 2 c"
    using P by (simp only: mult_le_cancel_right_pos of_nat_le_iff)
  then show ?thesis by (simp add: ec ec' mult.assoc)
qed


lemma float_val_nonneg_mantissa: "0 \<le> float_val (Finite m e) \<Longrightarrow> 0 \<le> m"
proof -
  have "0 < power_int (2::rat) e" by simp
  then show "0 \<le> float_val (Finite m e) \<Longrightarrow> 0 \<le> m"
    by (auto simp: float_val_def zero_le_mult_iff)
qed

lemma float_trunc_val:
  assumes "0 \<le> float_val (Finite m e)"
  shows "float_trunc (Finite m e) = Inr \<lfloor>float_val (Finite m e)\<rfloor>"
proof -
  have m: "0 \<le> m" using assms by (rule float_val_nonneg_mantissa)
  show ?thesis
  proof (cases "0 \<le> e")
    case True
    then have "float_val (Finite m e) = of_int (m * 2 ^ nat e)" by (simp add: float_val_def power_int_nonneg_exp)
    then show ?thesis using True by (simp only: floor_of_int) (simp add: float_trunc_def)
  next
    case False
    then have "power_int (2::rat) e = 1 / of_int (2 ^ nat (- e))"
      using power_int_minus_divide [of "2::rat" "- e"] by (simp add: power_int_nonneg_exp)
    then have "float_val (Finite m e) = of_int m / of_int (2 ^ nat (- e))" by (simp add: float_val_def)
    moreover have "\<lfloor>of_int m / (2::rat) ^ nat (- e)\<rfloor> = m div 2 ^ nat (- e)"
      using floor_divide_of_int_eq [of m "2 ^ nat (- e)", where 'a = rat] by simp
    moreover have "sgn m * (\<bar>m\<bar> div 2 ^ nat (- e)) = m div 2 ^ nat (- e)"
      using m by (cases "m = 0") simp_all
    ultimately show ?thesis using False by (simp add: float_trunc_def)
  qed
qed


text \<open>
  \<open>int(x * n)\<close> for doubles \<open>x \<le> y\<close> in \<open>[0, 1]\<close> and an integer \<open>0 \<le> n < 2 ^ 1000\<close>:
  no exception, and the results are ordered. The product is at most \<open>float(n)\<close>, so it
  does not overflow; rounding and truncation are monotone.
\<close>

lemma py_int_float_times_mono:
  assumes x: "x = Finite mx ex" and y: "y = Finite my ey"
    and "0 \<le> float_val x" and "float_val x \<le> float_val y" and "float_val y \<le> 1"
    and "0 \<le> n" and "n < 2 ^ 1000"
  shows "\<exists>lo hi. py_int_float_times x n = Inr lo \<and> py_int_float_times y n = Inr hi \<and> 0 \<le> lo \<and> lo \<le> hi"
proof -
  let ?F = "round_val (nat n)"
  have "?F \<le> 2 ^ 1000"
    using round_val_mono [of "nat n" "2 ^ 1000"] assms(7) round_val_pow2 [of 1000] by simp
  then have F: "of_nat ?F * power_int (2::rat) 0 < 2 ^ 1024"
    by (simp add: of_nat_le_iff [symmetric] del: of_nat_le_iff)
  define mf where "mf = int (round_even (nat n) (round_shift (nat n)))"
  define ef where "ef = int (round_shift (nat n))"
  have f: "round_float n 0 = Finite mf ef" using round_float_finite [OF assms(6) F] by (simp add: mf_def ef_def)
  have fv: "float_val (Finite mf ef) = of_nat ?F" using round_float_val [OF assms(6) f] by simp
  have mf: "0 \<le> mf" by (simp add: mf_def)
  have "round_even (nat n) (round_shift (nat n)) \<le> 2 ^ 53"
    using round_shift_bound [of "nat n"] by (intro round_even_upper) (simp add: add.commute)
  then have mf_small: "round_val (nat mf) = nat mf" by (simp add: mf_def round_val_small)
  have fv': "of_int mf * power_int (2::rat) ef = of_nat ?F" using fv by (simp add: float_val_def)
  have fv'': "of_nat (nat mf) * power_int (2::rat) ef = of_nat ?F" using fv' mf by simp
  have exact: "of_int (m * mf) * power_int (2::rat) (e + ef) = float_val (Finite m e) * of_nat ?F" for m e
    using fv' by (simp add: float_val_def power_int_add mult_ac)
  have prod: "float_trunc (float_mul (Finite m e) (Finite mf ef)) =
                Inr \<lfloor>of_nat (round_val (nat (m * mf))) * power_int (2::rat) (e + ef)\<rfloor> \<and>
              0 \<le> of_nat (round_val (nat (m * mf))) * power_int (2::rat) (e + ef)"
    if v0: "0 \<le> float_val (Finite m e)" and v1: "float_val (Finite m e) \<le> 1" for m e
  proof -
    have m0: "0 \<le> m * mf" using float_val_nonneg_mantissa [OF v0] mf by simp
    have "float_val (Finite m e) * of_nat ?F \<le> 1 * of_nat ?F" using v1 by (intro mult_right_mono) simp_all
    then have "of_int (m * mf) * power_int (2::rat) (e + ef) \<le> of_int mf * power_int 2 ef"
      by (simp only: exact fv' mult_1)
    from round_val_mono_scaled [OF m0 mf this]
    have "of_nat (round_val (nat (m * mf))) * power_int (2::rat) (e + ef) \<le> of_nat ?F"
      by (simp only: mf_small fv'')
    also have "\<dots> < 2 ^ 1024" using F by simp
    finally have R: "of_nat (round_val (nat (m * mf))) * power_int (2::rat) (e + ef) < 2 ^ 1024" .
    obtain mp ep where p: "round_float (m * mf) (e + ef) = Finite mp ep"
      using round_float_finite [OF m0 R] by blast
    have pv: "float_val (Finite mp ep) = of_nat (round_val (nat (m * mf))) * power_int 2 (e + ef)"
      by (rule round_float_val [OF m0 p])
    have "0 \<le> float_val (Finite mp ep)" by (simp add: pv)
    from float_trunc_val [OF this] pv p show ?thesis by (simp add: float_mul_def)
  qed
  have vx: "0 \<le> float_val (Finite mx ex)" "float_val (Finite mx ex) \<le> 1"
    and vy: "0 \<le> float_val (Finite my ey)" "float_val (Finite my ey) \<le> 1"
    using assms(3,4,5) x y by simp_all
  have "of_int (mx * mf) * power_int (2::rat) (ex + ef) \<le> of_int (my * mf) * power_int 2 (ey + ef)"
    using assms(4) x y by (simp only: exact) (simp add: mult_right_mono)
  from round_val_mono_scaled [OF _ _ this] float_val_nonneg_mantissa [OF vx(1)] float_val_nonneg_mantissa [OF vy(1)] mf
  have le: "of_nat (round_val (nat (mx * mf))) * power_int (2::rat) (ex + ef) \<le>
            of_nat (round_val (nat (my * mf))) * power_int 2 (ey + ef)" by simp
  have fi: "float_of_int n = Inr (Finite mf ef)" by (simp add: float_of_int_def f)
  show ?thesis
    using prod [OF vx] prod [OF vy] le fi x y
    by (auto simp: py_int_float_times_def intro: floor_mono)
qed

lemma py_int_float_times_0: "float_finite x \<Longrightarrow> py_int_float_times x 0 = Inr 0"
  by (auto simp: float_finite_def float_eval split: py_float.splits)

end
