(* ===== verification/HeapState.thy ===== *)
theory HeapState
  imports PyFloat
begin

text \<open>
  HeapState and the session's data (src/unbeatable.py). The module constants of
  lines 28--40 are one immutable \<open>config\<close> value passed to every operation that
  reads them; \<open>default_config\<close> holds the values of the source. The state the
  main loop threads (\<open>heaps\<close>, \<open>player\<close>, \<open>error_trigger\<close>, \<open>opponent\<close>,
  line 56) is the record \<open>game\<close>. This theory also holds the helpers every
  component shares: the nimm sum loop (the first \<open>for\<close> loop of
  \<open>play_correctly\<close>, \<open>make_mistake\<close> and \<open>cpu_losing\<close>), the update
  \<open>heaps[heap] = heaps[heap] - stones_taken\<close> and \<open>switch_player\<close>, with the
  heap invariant (length \<open>N_HEAPS\<close>, no negative heap) and the legality of a move.
\<close>

unbundle bit_operations_syntax

record config =
  n_heaps :: nat
  random_heaps :: bool
  heap_min :: int
  heap_max :: int
  default_heap :: int
  cpu_player :: int
  error_min :: py_float
  error_max :: py_float

definition default_config :: config where
  "default_config =
     \<lparr>n_heaps = 3, random_heaps = True, heap_min = 15, heap_max = 25, default_heap = 20,
      cpu_player = 1, error_min = Finite 5404319552844595 (-54),
      error_max = Finite 6305039478318694 (-53)\<rparr>"

text \<open>
  What the source's comments and spec section 6 ask of the constants: \<open>ERROR_MIN\<close> and
  \<open>ERROR_MAX\<close> are the doubles \<open>0.3\<close> and \<open>0.7\<close> (the nearest doubles to the
  decimal literals), finite and ordered in \<open>[0, 1]\<close>; and the heaps are small
  enough for their total to convert to a double, which Python needs for
  \<open>ERROR_MIN*sum(heaps)\<close> (a total of \<open>2 ^ 1024\<close> or more raises OverflowError).
\<close>

definition valid_config :: "config \<Rightarrow> bool" where
  "valid_config cfg \<longleftrightarrow>
     0 < n_heaps cfg \<and> 0 \<le> heap_min cfg \<and> heap_min cfg \<le> heap_max cfg \<and>
     0 \<le> default_heap cfg \<and> cpu_player cfg \<in> {1, 2} \<and>
     float_finite (error_min cfg) \<and> float_finite (error_max cfg) \<and>
     0 \<le> float_val (error_min cfg) \<and> float_val (error_min cfg) \<le> float_val (error_max cfg) \<and>
     float_val (error_max cfg) \<le> 1 \<and>
     int (n_heaps cfg) * max (heap_max cfg) (default_heap cfg) < 2 ^ 1000"

text \<open>
  The opponent is the string \<open>"Nimm"\<close> or \<open>"Nymm"\<close> in the source; the error
  trigger is an \<open>int\<close> until the mistake fires and \<open>float("-inf")\<close> after.
\<close>

datatype opponent = Nimm | Nymm

datatype trigger = Threshold int | NegInf

text \<open>The comparison \<open>sum(heaps) < error_trigger\<close> of \<open>cpu_turn\<close>.\<close>

fun below_trigger :: "int \<Rightarrow> trigger \<Rightarrow> bool" where
  "below_trigger s (Threshold t) = (s < t)"
| "below_trigger s NegInf = False"

record game =
  g_heaps :: heap_list
  g_player :: int
  g_trigger :: trigger
  g_opponent :: opponent

definition switch_player :: "int \<Rightarrow> int" where
  "switch_player player = 3 - player"

definition nimm_sum :: "config \<Rightarrow> heap_list \<Rightarrow> int" where
  "nimm_sum cfg heaps = fold (\<lambda>heap s. s XOR heaps ! heap) [0..<n_heaps cfg] 0"

definition cpu_losing :: "config \<Rightarrow> heap_list \<Rightarrow> bool" where
  "cpu_losing cfg heaps \<longleftrightarrow> nimm_sum cfg heaps = 0"

definition apply_move :: "heap_list \<Rightarrow> move \<Rightarrow> heap_list" where
  "apply_move heaps mv = (case mv of (heap, stones_taken) \<Rightarrow> heaps[heap := heaps ! heap - stones_taken])"

definition heaps_ok :: "config \<Rightarrow> heap_list \<Rightarrow> bool" where
  "heaps_ok cfg hs \<longleftrightarrow> length hs = n_heaps cfg \<and> (\<forall>h\<in>set hs. 0 \<le> h)"

definition legal_move :: "heap_list \<Rightarrow> move \<Rightarrow> bool" where
  "legal_move hs mv \<longleftrightarrow> (case mv of (i, k) \<Rightarrow> i < length hs \<and> 1 \<le> k \<and> k \<le> hs ! i)"

subsection \<open>The nimm sum loop is the exclusive or of the heap list\<close>

lemma nimm_sum_xor_list [heap_simps]:
  "length heaps = n_heaps cfg \<Longrightarrow> nimm_sum cfg heaps = xor_list heaps"
proof -
  assume len: "length heaps = n_heaps cfg"
  have "fold (\<lambda>heap s. s XOR heaps ! heap) [0..<length heaps] 0
        = fold (\<lambda>h s. s XOR h) (map (nth heaps) [0..<length heaps]) 0"
    by (simp add: fold_map comp_def)
  also have "\<dots> = xor_list heaps"
    by (simp add: map_nth xor_list_def)
  finally show ?thesis using len by (simp add: nimm_sum_def)
qed

lemma heaps_ok_nimm_sum: "heaps_ok cfg hs \<Longrightarrow> nimm_sum cfg hs = xor_list hs"
  by (simp add: heaps_ok_def nimm_sum_xor_list)

subsection \<open>Players\<close>

lemma switch_player_switch_player [simp]: "switch_player (switch_player p) = p"
  by (simp add: switch_player_def)

lemma switch_player_in_range: "p \<in> {1, 2} \<Longrightarrow> switch_player p \<in> {1, 2}"
  by (auto simp: switch_player_def)

lemma switch_player_neq: "p \<in> {1, 2} \<Longrightarrow> switch_player p \<noteq> p"
  by (auto simp: switch_player_def)

lemma switch_player_eq_iff: "p \<in> {1, 2} \<Longrightarrow> q \<in> {1, 2} \<Longrightarrow> switch_player p = q \<longleftrightarrow> p \<noteq> q"
  by (auto simp: switch_player_def)

subsection \<open>Moves\<close>

lemma length_apply_move [simp]: "length (apply_move hs mv) = length hs"
  by (simp add: apply_move_def split: prod.splits)

lemma apply_move_nth:
  "i < length hs \<Longrightarrow> apply_move hs (i, k) ! j = (if j = i then hs ! i - k else hs ! j)"
  by (simp add: apply_move_def nth_list_update)

lemma sum_apply_move [heap_simps]:
  "i < length hs \<Longrightarrow> sum_list (apply_move hs (i, k)) = sum_list hs - k"
  by (simp add: apply_move_def sum_list_update)

lemma xor_apply_move [heap_simps]:
  "i < length hs \<Longrightarrow> xor_list (apply_move hs (i, k)) = xor_list hs XOR hs ! i XOR (hs ! i - k)"
  by (simp add: apply_move_def xor_list_update)

lemma legal_move_heaps_ok:
  "heaps_ok cfg hs \<Longrightarrow> legal_move hs mv \<Longrightarrow> heaps_ok cfg (apply_move hs mv)"
  by (auto simp: heaps_ok_def legal_move_def apply_move_def set_conv_nth nth_list_update
           split: prod.splits)

lemma legal_move_sum_less:
  "legal_move hs mv \<Longrightarrow> sum_list (apply_move hs mv) < sum_list hs"
  by (auto simp: legal_move_def sum_apply_move split: prod.splits)

text \<open>
  A legal move from a position of nimm sum zero always leaves a non-zero nimm sum:
  the moved heap changes and no other does.
\<close>

lemma legal_move_from_zero:
  assumes "legal_move hs mv" and "xor_list hs = 0"
  shows "xor_list (apply_move hs mv) \<noteq> 0"
proof -
  obtain i k where mv: "mv = (i, k)" by (cases mv)
  with assms(1) have i: "i < length hs" and k: "1 \<le> k" by (auto simp: legal_move_def)
  have "hs ! i XOR (hs ! i - k) \<noteq> 0" using k by (simp add: xor_eq_0_iff)
  with i assms(2) show ?thesis by (simp add: mv xor_apply_move)
qed

lemma heaps_ok_terminal_xor:
  "heaps_ok cfg hs \<Longrightarrow> sum_list hs = 0 \<Longrightarrow> xor_list hs = 0"
  by (simp add: heaps_ok_def nonneg_sum_list_0_iff all_zero_xor_list)

lemma heaps_ok_sum_nonneg: "heaps_ok cfg hs \<Longrightarrow> 0 \<le> sum_list hs"
  by (simp add: heaps_ok_def sum_list_nonneg)

lemma valid_default_config: "valid_config default_config"
  by (simp add: valid_config_def default_config_def)

end
