(* ===== verification/NimmSum.thy ===== *)
theory NimmSum
  imports HeapState
begin

text \<open>
  NimmSumEngine: \<open>play_correctly\<close> (src/unbeatable.py, lines 123--132) and its
  fallback \<open>choose_random\<close> (lines 159--162). The second loop of
  \<open>play_correctly\<close>, the scan over \<open>enumerate(heaps)\<close> for the first heap whose
  target size \<open>heap_size ^ nimm_sum\<close> is smaller than its size, is the recursive
  \<open>scan_correct\<close>, whose index argument is the \<open>enumerate\<close> counter. The
  theorems show that a move to nimm sum zero exists exactly when the nimm sum is not
  zero, that the engine's move is such a move whenever it exists and then never
  reaches the random fallback, that it picks the lowest qualifying heap, and what the
  fallback does: the first largest heap, any number of stones from one to all.
\<close>

unbundle bit_operations_syntax

definition choose_random :: "heap_list \<Rightarrow> rng \<Rightarrow> py_error + move \<times> rng" where
  "choose_random heaps ds =
     (case py_max heaps of
        Inl e \<Rightarrow> Inl e
      | Inr m \<Rightarrow>
          (case py_index heaps m of
             Inl e \<Rightarrow> Inl e
           | Inr heap \<Rightarrow>
               (case randint 1 (heaps ! heap) ds of
                  Inl e \<Rightarrow> Inl e
                | Inr (stones_taken, ds') \<Rightarrow> Inr ((heap, stones_taken), ds'))))"

fun scan_correct :: "int \<Rightarrow> nat \<Rightarrow> heap_list \<Rightarrow> move option" where
  "scan_correct nimm heap [] = None"
| "scan_correct nimm heap (heap_size # rest) =
     (let target_size = heap_size XOR nimm in
      if target_size < heap_size then Some (heap, heap_size - target_size)
      else scan_correct nimm (Suc heap) rest)"

definition play_correctly :: "config \<Rightarrow> heap_list \<Rightarrow> rng \<Rightarrow> py_error + move \<times> rng" where
  "play_correctly cfg heaps ds =
     (let nimm = nimm_sum cfg heaps in
      case scan_correct nimm 0 heaps of
        Some mv \<Rightarrow> Inr (mv, ds)
      | None \<Rightarrow> choose_random heaps ds)"

text \<open>A heap is qualifying when its exclusive or with the nimm sum is smaller.\<close>

definition qualifying :: "int \<Rightarrow> int \<Rightarrow> bool" where
  "qualifying nimm h \<longleftrightarrow> h XOR nimm < h"

subsection \<open>The scan\<close>

lemma scan_correct_first_index:
  "scan_correct nimm heap hs =
     map_option (\<lambda>i. (heap + i, hs ! i - (hs ! i XOR nimm))) (first_index (qualifying nimm) hs)"
  by (induction hs arbitrary: heap) (simp_all add: Let_def qualifying_def option.map_comp comp_def)

lemma scan_correct_None_iff:
  "scan_correct nimm heap hs = None \<longleftrightarrow> (\<forall>h\<in>set hs. \<not> qualifying nimm h)"
  by (simp add: scan_correct_first_index first_index_None_iff)

lemma scan_correct_0_Some:
  "scan_correct nimm 0 hs = Some (j, k) \<Longrightarrow>
     j < length hs \<and> qualifying nimm (hs ! j) \<and> k = hs ! j - (hs ! j XOR nimm) \<and>
     (\<forall>m < j. \<not> qualifying nimm (hs ! m))"
  by (auto simp: scan_correct_first_index dest: first_index_Some)

subsection \<open>The random fallback\<close>

lemma choose_random_Inr:
  assumes "choose_random heaps ds = Inr ((i, k), ds')"
  shows "legal_move heaps (i, k) \<and> ds' = stl ds \<and> (\<forall>h\<in>set heaps. h \<le> heaps ! i) \<and>
         (\<forall>j < i. heaps ! j < heaps ! i)"
proof -
  obtain m where m: "py_max heaps = Inr m"
    using assms by (auto simp: choose_random_def split: sum.splits)
  obtain heap where heap: "py_index heaps m = Inr heap"
    using assms m by (auto simp: choose_random_def split: sum.splits)
  have r: "randint 1 (heaps ! heap) ds = Inr (k, ds')" and hi: "heap = i"
    using assms m heap by (auto simp: choose_random_def split: sum.splits)
  from py_max_Inr [OF m] have mx: "\<forall>h\<in>set heaps. h \<le> m" by simp
  from py_index_Inr [OF heap] have idx: "heap < length heaps" "heaps ! heap = m" by simp_all
  from py_index_first [OF heap] idx have first: "\<forall>j < heap. heaps ! j < m"
    using mx by (metis nth_mem order.order_iff_strict dual_order.strict_trans2 order_less_imp_le)
  from randint_range [OF r] idx have "1 \<le> k" "k \<le> heaps ! heap" "ds' = stl ds" by simp_all
  with idx mx first hi show ?thesis by (simp add: legal_move_def)
qed

lemma choose_random_ok:
  assumes "\<exists>h\<in>set heaps. 0 < h"
  shows "\<exists>mv ds'. choose_random heaps ds = Inr (mv, ds')"
proof -
  from assms have "heaps \<noteq> []" by auto
  then obtain m where m: "py_max heaps = Inr m" using py_max_nonempty by blast
  from py_max_Inr [OF m] have "m \<in> set heaps" "\<forall>h\<in>set heaps. h \<le> m" by simp_all
  with assms have "0 < m" by force
  from \<open>m \<in> set heaps\<close> obtain heap where heap: "py_index heaps m = Inr heap"
    using py_index_mem by blast
  from py_index_Inr [OF heap] \<open>0 < m\<close> have "\<not> heaps ! heap < 1" by simp
  then show ?thesis
    by (simp add: choose_random_def m heap randint_def)
qed

lemma choose_random_Inl:
  assumes err: "choose_random heaps ds = Inl e"
  shows "e = ValueError \<and> (\<forall>h\<in>set heaps. h \<le> 0)"
proof (cases "py_max heaps")
  case (Inl e')
  then show ?thesis using err by (simp add: choose_random_def py_max_def split: list.splits)
next
  case (Inr m)
  from py_max_Inr [OF Inr] have m: "m \<in> set heaps" "\<forall>h\<in>set heaps. h \<le> m" by simp_all
  from m(1) obtain heap where heap: "py_index heaps m = Inr heap"
    using py_index_mem by blast
  from py_index_Inr [OF heap] have hm: "heaps ! heap = m" by simp
  from err Inr heap have "randint 1 (heaps ! heap) ds = Inl e"
    by (simp add: choose_random_def split: sum.splits prod.splits)
  then have "heaps ! heap < 1" "e = ValueError" by (simp_all add: randint_error)
  with hm m(2) show ?thesis by force
qed

lemma choose_random_heap:
  assumes "choose_random heaps ds = Inr ((i, k), ds')"
  shows "choose_random heaps ds2 =
           (case randint 1 (heaps ! i) ds2 of Inl e \<Rightarrow> Inl e | Inr (k', ds2') \<Rightarrow> Inr ((i, k'), ds2'))"
  using assms by (auto simp: choose_random_def split: sum.splits prod.splits)

lemma first_largest_unique:
  assumes "i < length (hs :: int list)" "\<forall>h\<in>set hs. h \<le> hs ! i" "\<forall>m < i. hs ! m < hs ! i"
    and "j < length hs" "\<forall>h\<in>set hs. h \<le> hs ! j" "\<forall>m < j. hs ! m < hs ! j"
  shows "i = j"
proof (rule ccontr)
  assume "i \<noteq> j"
  then consider "i < j" | "j < i" by linarith
  then show False
  proof cases
    case 1
    with assms(6) have "hs ! i < hs ! j" by blast
    moreover have "hs ! j \<le> hs ! i" using assms(2,4) by simp
    ultimately show False by simp
  next
    case 2
    with assms(3) have "hs ! j < hs ! i" by blast
    moreover have "hs ! i \<le> hs ! j" using assms(1,5) by simp
    ultimately show False by simp
  qed
qed

subsection \<open>The engine\<close>

lemma play_correctly_qualifying:
  assumes "scan_correct (nimm_sum cfg heaps) 0 heaps = Some mv"
  shows "play_correctly cfg heaps ds = Inr (mv, ds)"
  using assms by (simp add: play_correctly_def)

lemma play_correctly_fallback:
  assumes "scan_correct (nimm_sum cfg heaps) 0 heaps = None"
  shows "play_correctly cfg heaps ds = choose_random heaps ds"
  using assms by (simp add: play_correctly_def)

text \<open>Every move of the engine removes at least one stone from an existing heap.\<close>

lemma play_correctly_progress:
  "play_correctly cfg heaps ds = Inr ((i, k), ds') \<Longrightarrow> i < length heaps \<and> 1 \<le> k"
  by (auto simp: play_correctly_def qualifying_def legal_move_def
           dest!: scan_correct_0_Some choose_random_Inr split: option.splits)

lemma nonneg_qualifying_move:
  assumes "0 \<le> h" "0 \<le> nimm" "qualifying nimm h"
  shows "1 \<le> h - (h XOR nimm) \<and> h - (h XOR nimm) \<le> h"
  using assms by (simp add: qualifying_def)

lemma qualifying_move_zeroes:
  assumes "i < length hs" and "k = hs ! i - (hs ! i XOR xor_list hs)"
  shows "xor_list (apply_move hs (i, k)) = 0"
proof -
  let ?s = "xor_list hs" and ?h = "hs ! i"
  have "?h - k = ?h XOR ?s" using assms(2) by simp
  moreover have "?h XOR (?h XOR ?s) = ?s" by (simp add: xor.assoc [symmetric])
  ultimately have "?s XOR ?h XOR (?h - k) = ?s XOR ?s" by simp
  with assms(1) show ?thesis by (simp add: xor_apply_move)
qed

subsection \<open>Correctness of the engine\<close>

lemma scan_correct_found:
  assumes "heaps_ok cfg heaps" and "nimm_sum cfg heaps \<noteq> 0"
  shows "\<exists>i k. scan_correct (nimm_sum cfg heaps) 0 heaps = Some (i, k)"
proof -
  from assms have nonneg: "\<forall>h\<in>set heaps. 0 \<le> h" and s: "nimm_sum cfg heaps = xor_list heaps"
    by (simp_all add: heaps_ok_def heaps_ok_nimm_sum)
  from qualifying_heap_exists [OF nonneg] assms(2) s
  obtain i where "i < length heaps" "qualifying (nimm_sum cfg heaps) (heaps ! i)"
    by (auto simp: qualifying_def)
  then have "scan_correct (nimm_sum cfg heaps) 0 heaps \<noteq> None"
    by (auto simp: scan_correct_None_iff)
  then show ?thesis by auto
qed

lemma scan_correct_move_wins:
  assumes "heaps_ok cfg heaps" and "scan_correct (nimm_sum cfg heaps) 0 heaps = Some (i, k)"
  shows "legal_move heaps (i, k) \<and> nimm_sum cfg (apply_move heaps (i, k)) = 0"
proof -
  from assms(1) have nonneg: "\<forall>h\<in>set heaps. 0 \<le> h" and s: "nimm_sum cfg heaps = xor_list heaps"
    by (simp_all add: heaps_ok_def heaps_ok_nimm_sum)
  from scan_correct_0_Some [OF assms(2)]
  have i: "i < length heaps" and q: "qualifying (xor_list heaps) (heaps ! i)"
    and k: "k = heaps ! i - (heaps ! i XOR xor_list heaps)"
    by (simp_all add: s)
  have "0 \<le> heaps ! i" using nonneg i by simp
  with q k xor_list_nonneg [OF nonneg] have "1 \<le> k \<and> k \<le> heaps ! i"
    using nonneg_qualifying_move by blast
  with i have "legal_move heaps (i, k)" by (simp add: legal_move_def)
  moreover have "nimm_sum cfg (apply_move heaps (i, k)) = 0"
    using legal_move_heaps_ok [OF assms(1) \<open>legal_move heaps (i, k)\<close>] i k
    by (simp add: heaps_ok_nimm_sum qualifying_move_zeroes)
  ultimately show ?thesis by simp
qed

text \<open>
  C1: NimmSumEngine's contract (spec 4.1 and the first testable
  property of section 8). On every well-formed heap state whose nimm sum is not zero,
  \<open>play_correctly\<close> returns without consuming a random draw, its move is legal
  (an existing heap, at least one stone, no more than the heap holds) and after the move
  the nimm sum is exactly zero.
\<close>

theorem play_correctly_wins:
  assumes "heaps_ok cfg heaps" and "nimm_sum cfg heaps \<noteq> 0"
  shows "\<exists>i k. play_correctly cfg heaps ds = Inr ((i, k), ds) \<and> legal_move heaps (i, k) \<and>
                nimm_sum cfg (apply_move heaps (i, k)) = 0"
proof -
  obtain i k where sc: "scan_correct (nimm_sum cfg heaps) 0 heaps = Some (i, k)"
    using scan_correct_found [OF assms] by blast
  then have "play_correctly cfg heaps ds = Inr ((i, k), ds)"
    by (rule play_correctly_qualifying)
  with scan_correct_move_wins [OF assms(1) sc] show ?thesis by blast
qed

theorem play_correctly_wins_witness:
  "heaps_ok default_config [1, 2, 0] \<and> nimm_sum default_config [1, 2, 0] \<noteq> 0 \<and>
   play_correctly default_config [1, 2, 0] (sconst 0) = Inr ((1, 1), sconst 0) \<and>
   legal_move [1, 2, 0] (1, 1) \<and> nimm_sum default_config (apply_move [1, 2, 0] (1, 1)) = 0"
proof -
  have ok: "heaps_ok default_config [1, 2, 0]" by (simp add: heaps_ok_def default_config_def)
  have nz: "nimm_sum default_config [1, 2, 0] \<noteq> 0"
    by (simp add: nimm_sum_def default_config_def upt_rec)
  from play_correctly_wins [OF ok nz, of "sconst 0"] obtain i k where
    "play_correctly default_config [1, 2, 0] (sconst 0) = Inr ((i, k), sconst 0)"
    "legal_move [1, 2, 0] (i, k)" "nimm_sum default_config (apply_move [1, 2, 0] (i, k)) = 0"
    by blast
  moreover have "play_correctly default_config [1, 2, 0] (sconst 0) = Inr ((1, 1), sconst 0)"
    by (simp add: play_correctly_def nimm_sum_def default_config_def upt_rec)
  ultimately show ?thesis using ok nz by simp
qed

lemma play_correctly_scan_result:
  assumes "heaps_ok cfg heaps" and "nimm_sum cfg heaps \<noteq> 0"
    and "play_correctly cfg heaps ds = Inr ((i, k), ds')"
  shows "scan_correct (nimm_sum cfg heaps) 0 heaps = Some (i, k) \<and> ds' = ds"
proof -
  obtain i' k' where sc: "scan_correct (nimm_sum cfg heaps) 0 heaps = Some (i', k')"
    using scan_correct_found [OF assms(1,2)] by blast
  with assms(3) show ?thesis by (simp add: play_correctly_qualifying)
qed

lemma play_correctly_zeroes:
  assumes "heaps_ok cfg heaps" and "nimm_sum cfg heaps \<noteq> 0"
    and "play_correctly cfg heaps ds = Inr ((i, k), ds')"
  shows "legal_move heaps (i, k) \<and> nimm_sum cfg (apply_move heaps (i, k)) = 0"
  using play_correctly_scan_result [OF assms] scan_correct_move_wins [OF assms(1)] by blast

text \<open>
  C21: the deterministic tie-break of spec 4.1. When the nimm
  sum is not zero, the heap \<open>play_correctly\<close> moves on is qualifying and no heap of a
  lower index is, and it removes exactly \<open>heap_size - (heap_size ^ nimm_sum)\<close>.
\<close>

theorem play_correctly_lowest_heap:
  assumes "heaps_ok cfg heaps" and "nimm_sum cfg heaps \<noteq> 0"
    and "play_correctly cfg heaps ds = Inr ((i, k), ds')"
  shows "qualifying (nimm_sum cfg heaps) (heaps ! i) \<and>
         (\<forall>j < i. \<not> qualifying (nimm_sum cfg heaps) (heaps ! j)) \<and>
         k = heaps ! i - (heaps ! i XOR nimm_sum cfg heaps)"
proof -
  from play_correctly_scan_result [OF assms]
  have "scan_correct (nimm_sum cfg heaps) 0 heaps = Some (i, k)" by simp
  from scan_correct_0_Some [OF this] show ?thesis by simp
qed

theorem play_correctly_lowest_heap_witness:
  "heaps_ok default_config [1, 4, 2] \<and> nimm_sum default_config [1, 4, 2] \<noteq> 0 \<and>
   play_correctly default_config [1, 4, 2] (sconst 0) = Inr ((1, 1), sconst 0) \<and>
   \<not> qualifying (nimm_sum default_config [1, 4, 2]) ([1, 4, 2] ! 0)"
proof -
  have ok: "heaps_ok default_config [1, 4, 2]" by (simp add: heaps_ok_def default_config_def)
  have nz: "nimm_sum default_config [1, 4, 2] \<noteq> 0"
    by (simp add: nimm_sum_def default_config_def upt_rec)
  have pc: "play_correctly default_config [1, 4, 2] (sconst 0) = Inr ((1, 1), sconst 0)"
    by (simp add: play_correctly_def nimm_sum_def default_config_def upt_rec)
  from play_correctly_lowest_heap [OF ok nz pc] have "\<forall>j < 1. \<not> qualifying (nimm_sum default_config [1, 4, 2]) ([1, 4, 2] ! j)"
    by blast
  with ok nz pc show ?thesis by simp
qed

text \<open>
  C22: the second testable property of spec section 8 and
  the fallback of 4.1. From a non-empty position whose nimm sum is zero no heap is
  qualifying, so \<open>play_correctly\<close> is exactly \<open>choose_random\<close>: it returns a
  legal move, and that move leaves a non-zero nimm sum; no move is claimed correct.
\<close>

theorem play_correctly_losing_position:
  assumes "heaps_ok cfg heaps" and "nimm_sum cfg heaps = 0" and "0 < sum_list heaps"
  shows "play_correctly cfg heaps ds = choose_random heaps ds \<and>
         (\<exists>i k ds'. play_correctly cfg heaps ds = Inr ((i, k), ds') \<and> legal_move heaps (i, k) \<and>
                   nimm_sum cfg (apply_move heaps (i, k)) \<noteq> 0)"
proof -
  have "scan_correct (nimm_sum cfg heaps) 0 heaps = None"
    using assms(2) by (simp add: scan_correct_None_iff qualifying_def)
  then have fb: "play_correctly cfg heaps ds = choose_random heaps ds"
    by (rule play_correctly_fallback)
  from assms(3) have "\<exists>h\<in>set heaps. 0 < h"
    by (metis less_irrefl sum_list_nonpos not_less)
  then obtain i k ds' where cr: "choose_random heaps ds = Inr ((i, k), ds')"
    using choose_random_ok by fastforce
  from choose_random_Inr [OF cr] have legal: "legal_move heaps (i, k)" by simp
  from assms(1,2) have "xor_list heaps = 0" by (simp add: heaps_ok_nimm_sum)
  from legal_move_from_zero [OF legal this] legal_move_heaps_ok [OF assms(1) legal]
  have "nimm_sum cfg (apply_move heaps (i, k)) \<noteq> 0" by (simp add: heaps_ok_nimm_sum)
  with fb cr legal show ?thesis by auto
qed

theorem play_correctly_losing_position_witness:
  "heaps_ok default_config [1, 2, 3] \<and> nimm_sum default_config [1, 2, 3] = 0 \<and>
   0 < sum_list [1, 2, 3::int] \<and>
   play_correctly default_config [1, 2, 3] (sconst 0) = choose_random [1, 2, 3] (sconst 0)"
proof -
  have ok: "heaps_ok default_config [1, 2, 3]" by (simp add: heaps_ok_def default_config_def)
  have z: "nimm_sum default_config [1, 2, 3] = 0"
    by (simp add: nimm_sum_def default_config_def upt_rec)
  have p: "0 < sum_list [1, 2, 3::int]" by simp
  from play_correctly_losing_position [OF ok z p] ok z p show ?thesis by simp
qed

text \<open>
  C20: the fact the strategy rests on (the glossary of the spec:
  a position is losing for the player to move iff its nimm sum is 0). On well-formed
  heaps, some legal move leads to a position of nimm sum zero exactly when the nimm
  sum is not zero now.
\<close>

theorem winning_move_exists_iff:
  assumes "heaps_ok cfg heaps"
  shows "(\<exists>mv. legal_move heaps mv \<and> nimm_sum cfg (apply_move heaps mv) = 0) \<longleftrightarrow> nimm_sum cfg heaps \<noteq> 0"
proof
  assume "\<exists>mv. legal_move heaps mv \<and> nimm_sum cfg (apply_move heaps mv) = 0"
  then obtain mv where l: "legal_move heaps mv" and z: "nimm_sum cfg (apply_move heaps mv) = 0" by blast
  show "nimm_sum cfg heaps \<noteq> 0"
  proof
    assume "nimm_sum cfg heaps = 0"
    with assms have "xor_list heaps = 0" by (simp add: heaps_ok_nimm_sum)
    from legal_move_from_zero [OF l this] z legal_move_heaps_ok [OF assms l] show False
      by (simp add: heaps_ok_nimm_sum)
  qed
next
  assume "nimm_sum cfg heaps \<noteq> 0"
  from scan_correct_found [OF assms this] scan_correct_move_wins [OF assms]
  show "\<exists>mv. legal_move heaps mv \<and> nimm_sum cfg (apply_move heaps mv) = 0" by blast
qed

theorem winning_move_exists_iff_witness:
  "heaps_ok default_config [1, 2, 0] \<and> nimm_sum default_config [1, 2, 0] = 3 \<and>
   (\<exists>mv. legal_move [1, 2, 0] mv \<and> nimm_sum default_config (apply_move [1, 2, 0] mv) = 0)"
proof -
  have ok: "heaps_ok default_config [1, 2, 0]" by (simp add: heaps_ok_def default_config_def)
  have s: "nimm_sum default_config [1, 2, 0] = 3" by (simp add: nimm_sum_def default_config_def upt_rec)
  from winning_move_exists_iff [OF ok] ok s show ?thesis by simp
qed

text \<open>
  The random fallback of spec 4.1. When some heap is
  not empty, \<open>choose_random\<close> always moves on the same heap, the first of the
  largest ones (\<open>heaps.index(max(heaps))\<close>), consumes exactly one random draw,
  and the numbers of stones it can remove are exactly \<open>1\<close> to the size of that heap,
  each for some draw.
\<close>

lemma choose_random_first_largest:
  assumes "\<exists>h\<in>set heaps. 0 < h"
  shows "\<exists>i < length heaps. (\<forall>h\<in>set heaps. h \<le> heaps ! i) \<and> (\<forall>j < i. heaps ! j < heaps ! i) \<and>
           (\<forall>ds i' k ds'. choose_random heaps ds = Inr ((i', k), ds') \<longrightarrow> i' = i \<and> ds' = stl ds) \<and>
           (\<forall>k. (\<exists>ds ds'. choose_random heaps ds = Inr ((i, k), ds')) \<longleftrightarrow> 1 \<le> k \<and> k \<le> heaps ! i)"
proof -
  obtain mv ds0 where r0: "choose_random heaps (sconst 0) = Inr (mv, ds0)"
    using choose_random_ok [OF assms] by blast
  obtain i k0 where mv: "mv = (i, k0)" by (cases mv)
  from choose_random_Inr [OF r0 [unfolded mv]]
  have l: "legal_move heaps (i, k0)" and mx: "\<forall>h\<in>set heaps. h \<le> heaps ! i"
    and fst: "\<forall>j < i. heaps ! j < heaps ! i" by simp_all
  then have i: "i < length heaps" by (simp add: legal_move_def)
  have uniq: "i' = i \<and> ds' = stl ds" if "choose_random heaps ds = Inr ((i', k), ds')" for ds i' k ds'
  proof -
    from choose_random_Inr [OF that] have "i' < length heaps" "\<forall>h\<in>set heaps. h \<le> heaps ! i'"
      "\<forall>j < i'. heaps ! j < heaps ! i'" "ds' = stl ds" by (simp_all add: legal_move_def)
    with first_largest_unique [OF i mx fst] show ?thesis by blast
  qed
  have range: "(\<exists>ds ds'. choose_random heaps ds = Inr ((i, k), ds')) \<longleftrightarrow> 1 \<le> k \<and> k \<le> heaps ! i" for k
  proof
    assume "\<exists>ds ds'. choose_random heaps ds = Inr ((i, k), ds')"
    then obtain ds ds' where "choose_random heaps ds = Inr ((i, k), ds')" by blast
    from choose_random_Inr [OF this] show "1 \<le> k \<and> k \<le> heaps ! i" by (simp add: legal_move_def)
  next
    assume "1 \<le> k \<and> k \<le> heaps ! i"
    then have "randint 1 (heaps ! i) (nat (k - 1) ## sconst 0) = Inr (k, sconst 0)"
      using randint_onto [of 1 k "heaps ! i" "sconst 0"] by simp
    with choose_random_heap [OF r0 [unfolded mv], of "nat (k - 1) ## sconst 0"]
    show "\<exists>ds ds'. choose_random heaps ds = Inr ((i, k), ds')" by auto
  qed
  from i mx fst uniq range show ?thesis by blast
qed

text \<open>
  C23: the random fallback removes a uniformly random number of
  stones, as spec 4.1 asks. When some heap is not empty, every draw gives a move on
  the first largest heap, consuming that draw only, and among the draws \<open>0\<close> to
  \<open>n * size - 1\<close> every number of stones from 1 to the heap's size is chosen by exactly
  \<open>n\<close> of them.
\<close>

theorem choose_random_uniform:
  assumes "\<exists>h\<in>set heaps. 0 < h"
  shows "\<exists>i < length heaps. (\<forall>h\<in>set heaps. h \<le> heaps ! i) \<and> (\<forall>j < i. heaps ! j < heaps ! i) \<and>
           (\<forall>d ds. \<exists>k. choose_random heaps (d ## ds) = Inr ((i, k), ds)) \<and>
           (\<forall>k n ds. 1 \<le> k \<and> k \<le> heaps ! i \<longrightarrow>
              card {d. d < n * nat (heaps ! i) \<and> (\<exists>ds'. choose_random heaps (d ## ds) = Inr ((i, k), ds'))} = n)"
proof -
  obtain mv ds0 where r0: "choose_random heaps (sconst 0) = Inr (mv, ds0)"
    using choose_random_ok [OF assms] by blast
  obtain i k0 where mv: "mv = (i, k0)" by (cases mv)
  from choose_random_Inr [OF r0 [unfolded mv]]
  have l: "legal_move heaps (i, k0)" and mx: "\<forall>h\<in>set heaps. h \<le> heaps ! i"
    and fst: "\<forall>j < i. heaps ! j < heaps ! i" by simp_all
  then have i: "i < length heaps" and pos: "1 \<le> heaps ! i" by (auto simp: legal_move_def)
  note cr = choose_random_heap [OF r0 [unfolded mv]]
  have total: "\<exists>k. choose_random heaps (d ## ds) = Inr ((i, k), ds)" for d ds
    using pos by (simp add: cr randint_def)
  have count: "card {d. d < n * nat (heaps ! i) \<and> (\<exists>ds'. choose_random heaps (d ## ds) = Inr ((i, k), ds'))} = n"
    if "1 \<le> k" "k \<le> heaps ! i" for k n ds
  proof -
    have "(\<exists>ds'. choose_random heaps (d ## ds) = Inr ((i, k), ds')) \<longleftrightarrow>
          (\<exists>ds'. randint 1 (heaps ! i) (d ## ds) = Inr (k, ds'))" for d
      by (auto simp: cr split: sum.splits)
    with randint_uniform [OF that, of n ds] show ?thesis by simp
  qed
  from i mx fst total count show ?thesis by blast
qed

theorem choose_random_uniform_witness:
  "(\<exists>h\<in>set [3, 5, 5::int]. 0 < h) \<and>
   card {d. d < 10 \<and> (\<exists>ds'. choose_random [3, 5, 5] (d ## sconst 0) = Inr ((1, 2), ds'))} = 2"
proof -
  have "\<exists>h\<in>set [3, 5, 5::int]. 0 < h" by simp
  from choose_random_uniform [OF this] obtain i where
    i: "i < length [3, 5, 5::int]" and u: "\<forall>d ds. \<exists>k. choose_random [3, 5, 5] (d ## ds) = Inr ((i, k), ds)"
    and c: "\<forall>k n ds. 1 \<le> k \<and> k \<le> [3, 5, 5] ! i \<longrightarrow>
              card {d. d < n * nat ([3, 5, 5] ! i) \<and> (\<exists>ds'. choose_random [3, 5, 5] (d ## ds) = Inr ((i, k), ds'))} = n"
    by blast
  have "choose_random [3, 5, 5] (0 ## sconst 0) = Inr ((1, 1), sconst 0)"
    by (simp add: choose_random_def py_max_def randint_def)
  with u have "i = 1" by (metis Pair_inject sum.inject(2))
  with c [rule_format, of 2 2 "sconst 0"] show ?thesis by simp
qed
end
