(* ===== verification/Mistake.thy ===== *)
theory Mistake
  imports NimmSum
begin

text \<open>
  MistakeInjector: \<open>make_mistake\<close> (src/unbeatable.py, lines 144--156). It computes the
  nimm sum as \<open>play_correctly\<close> does and scans the heaps in index order; at the
  first qualifying heap whose correct removal can be perturbed it removes one stone
  fewer (when the correct number is above 1) or one more (when it is 1 and below the
  heap size); a qualifying heap that allows neither is skipped, and when no heap
  allows a perturbation it falls back to \<open>choose_random\<close>. The scan is
  \<open>scan_mistake\<close>. The theorems show that a perturbed move is legal and hands the
  opponent a position of non-zero nimm sum, that it is the engine's move off by one,
  exactly when the fallback happens, and the example of the spec.
\<close>

unbundle bit_operations_syntax

fun scan_mistake :: "int \<Rightarrow> nat \<Rightarrow> heap_list \<Rightarrow> move option" where
  "scan_mistake nimm heap [] = None"
| "scan_mistake nimm heap (heap_size # rest) =
     (let target_size = heap_size XOR nimm in
      if target_size < heap_size then
        (let correct_number_to_remove = heap_size - target_size in
         if correct_number_to_remove > 1 then Some (heap, correct_number_to_remove - 1)
         else if correct_number_to_remove < heap_size then Some (heap, correct_number_to_remove + 1)
         else scan_mistake nimm (Suc heap) rest)
      else scan_mistake nimm (Suc heap) rest)"

definition make_mistake :: "config \<Rightarrow> heap_list \<Rightarrow> rng \<Rightarrow> py_error + move \<times> rng" where
  "make_mistake cfg heaps ds =
     (let nimm = nimm_sum cfg heaps in
      case scan_mistake nimm 0 heaps of
        Some mv \<Rightarrow> Inr (mv, ds)
      | None \<Rightarrow> choose_random heaps ds)"

text \<open>
  A heap the scan stops at: qualifying, and its correct removal \<open>c\<close> can be
  changed by one stone within the heap; \<open>mistake_amount\<close> is what is removed instead.
\<close>

definition correct_amount :: "int \<Rightarrow> int \<Rightarrow> int" where
  "correct_amount nimm h = h - (h XOR nimm)"

definition perturbable :: "int \<Rightarrow> int \<Rightarrow> bool" where
  "perturbable nimm h \<longleftrightarrow>
     qualifying nimm h \<and> (1 < correct_amount nimm h \<or> correct_amount nimm h < h)"

definition mistake_amount :: "int \<Rightarrow> int \<Rightarrow> int" where
  "mistake_amount nimm h =
     (if 1 < correct_amount nimm h then correct_amount nimm h - 1 else correct_amount nimm h + 1)"

text \<open>The positions where the scan finds nothing to perturb.\<close>

definition fallback_position :: "int \<Rightarrow> heap_list \<Rightarrow> bool" where
  "fallback_position nimm hs \<longleftrightarrow> nimm = 0 \<or> (nimm = 1 \<and> (\<forall>h\<in>set hs. odd h \<longrightarrow> h = 1))"

subsection \<open>The scan\<close>

lemma scan_mistake_first_index:
  "scan_mistake nimm heap hs =
     map_option (\<lambda>i. (heap + i, mistake_amount nimm (hs ! i))) (first_index (perturbable nimm) hs)"
proof (induction hs arbitrary: heap)
  case Nil
  then show ?case by simp
next
  case (Cons h hs)
  show ?case
  proof (cases "perturbable nimm h")
    case True
    then have "scan_mistake nimm heap (h # hs) = Some (heap, mistake_amount nimm h)"
      by (auto simp: Let_def perturbable_def qualifying_def mistake_amount_def correct_amount_def)
    with True show ?thesis by simp
  next
    case False
    then have "scan_mistake nimm heap (h # hs) = scan_mistake nimm (Suc heap) hs"
      by (auto simp: Let_def perturbable_def qualifying_def correct_amount_def)
    with False Cons.IH [of "Suc heap"] show ?thesis
      by (simp add: option.map_comp comp_def)
  qed
qed

lemma scan_mistake_0_Some:
  "scan_mistake nimm 0 hs = Some (j, k) \<Longrightarrow>
     j < length hs \<and> perturbable nimm (hs ! j) \<and> k = mistake_amount nimm (hs ! j) \<and>
     (\<forall>m < j. \<not> perturbable nimm (hs ! m))"
  by (auto simp: scan_mistake_first_index dest: first_index_Some)

lemma scan_mistake_None_iff:
  "scan_mistake nimm heap hs = None \<longleftrightarrow> (\<forall>h\<in>set hs. \<not> perturbable nimm h)"
  by (simp add: scan_mistake_first_index first_index_None_iff)

subsection \<open>Arithmetic of a perturbed move\<close>

lemma qualifying_odd_iff: "0 \<le> h \<Longrightarrow> qualifying 1 h \<longleftrightarrow> odd h"
  by (auto simp: qualifying_def xor_one_eq)

lemma qualifying_0 [simp]: "\<not> qualifying 0 h"
  by (simp add: qualifying_def)

text \<open>
  For non-negative values, a qualifying heap can be perturbed unless it holds one stone
  and the nimm sum is one: the correct removal is then the whole heap of one stone.
\<close>

lemma perturbable_iff:
  assumes "0 \<le> h" and "0 \<le> nimm"
  shows "perturbable nimm h \<longleftrightarrow> qualifying nimm h \<and> \<not> (h = 1 \<and> nimm = 1)"
proof (cases "qualifying nimm h")
  case True
  then have t: "0 \<le> h XOR nimm" "h XOR nimm < h" using assms by (simp_all add: qualifying_def)
  have "\<not> (1 < correct_amount nimm h \<or> correct_amount nimm h < h) \<longleftrightarrow> h = 1 \<and> h XOR nimm = 0"
    unfolding correct_amount_def using t by arith
  also have "\<dots> \<longleftrightarrow> h = 1 \<and> nimm = 1"
    by (auto simp: xor_eq_0_iff)
  finally show ?thesis using True by (auto simp: perturbable_def)
next
  case False
  then show ?thesis by (simp add: perturbable_def)
qed

lemma perturbed_move_legal_and_nonzero:
  assumes "i < length hs" "\<forall>h\<in>set hs. 0 \<le> h" "perturbable (xor_list hs) (hs ! i)"
    and "k = mistake_amount (xor_list hs) (hs ! i)"
  shows "legal_move hs (i, k) \<and> xor_list (apply_move hs (i, k)) \<noteq> 0"
proof -
  let ?s = "xor_list hs" and ?h = "hs ! i"
  let ?t = "?h XOR ?s"
  have h0: "0 \<le> ?h" using assms(1,2) by simp
  have s0: "0 \<le> ?s" using assms(2) by (rule xor_list_nonneg)
  have q: "?t < ?h" "0 \<le> ?t" using assms(3) h0 s0 by (simp_all add: perturbable_def qualifying_def)
  have k_eq: "k = (if 1 < ?h - ?t then ?h - ?t - 1 else ?h - ?t + 1)"
    using assms(4) by (simp add: mistake_amount_def correct_amount_def)
  have pc: "1 < ?h - ?t \<or> ?h - ?t < ?h"
    using assms(3) by (simp add: perturbable_def correct_amount_def)
  have kk: "1 \<le> k \<and> k \<le> ?h"
  proof (cases "1 < ?h - ?t")
    case True
    with k_eq have "k = ?h - ?t - 1" by simp
    with True q show ?thesis by linarith
  next
    case False
    with k_eq have "k = ?h - ?t + 1" by simp
    with False pc q show ?thesis by linarith
  qed
  have "?h - k \<noteq> ?t"
    using assms(3,4) by (auto simp: perturbable_def mistake_amount_def correct_amount_def)
  then have "?s XOR ?h XOR (?h - k) \<noteq> 0"
    by (metis xor_eq_0_iff xor.assoc xor.commute)
  with kk assms(1) show ?thesis by (simp add: legal_move_def xor_apply_move)
qed

subsection \<open>Properties of the injector\<close>

lemma make_mistake_scan:
  "scan_mistake (nimm_sum cfg heaps) 0 heaps = Some mv \<Longrightarrow> make_mistake cfg heaps ds = Inr (mv, ds)"
  by (simp add: make_mistake_def)

lemma make_mistake_fallback:
  "scan_mistake (nimm_sum cfg heaps) 0 heaps = None \<Longrightarrow> make_mistake cfg heaps ds = choose_random heaps ds"
  by (simp add: make_mistake_def)

text \<open>Every move of the injector removes at least one stone from an existing heap.\<close>

lemma make_mistake_progress:
  "make_mistake cfg heaps ds = Inr ((i, k), ds') \<Longrightarrow> i < length heaps \<and> 1 \<le> k"
  by (auto simp: make_mistake_def legal_move_def perturbable_def mistake_amount_def
                 correct_amount_def qualifying_def
           dest!: scan_mistake_0_Some choose_random_Inr split: option.splits)

lemma scan_mistake_None_fallback_position:
  assumes "heaps_ok cfg heaps"
  shows "scan_mistake (nimm_sum cfg heaps) 0 heaps = None \<longleftrightarrow>
         fallback_position (nimm_sum cfg heaps) heaps"
proof -
  from assms have nonneg: "\<forall>h\<in>set heaps. 0 \<le> h" and s: "nimm_sum cfg heaps = xor_list heaps"
    by (simp_all add: heaps_ok_def heaps_ok_nimm_sum)
  let ?s = "xor_list heaps"
  have s0: "0 \<le> ?s" using nonneg by (rule xor_list_nonneg)
  have none: "scan_mistake ?s 0 heaps = None \<longleftrightarrow>
              (\<forall>h\<in>set heaps. qualifying ?s h \<longrightarrow> h = 1 \<and> ?s = 1)"
    using nonneg s0 by (auto simp: scan_mistake_None_iff perturbable_iff)
  show ?thesis
  proof (cases "?s = 0 \<or> ?s = 1")
    case True
    then show ?thesis
      using none nonneg by (auto simp: s fallback_position_def qualifying_odd_iff)
  next
    case False
    then have "?s \<noteq> 0" by simp
    from qualifying_heap_exists [OF nonneg this] obtain i
      where "i < length heaps" "qualifying ?s (heaps ! i)" by (auto simp: qualifying_def)
    with False none have "scan_mistake ?s 0 heaps \<noteq> None" by (metis nth_mem)
    with False show ?thesis by (simp add: s fallback_position_def)
  qed
qed

subsection \<open>Correctness of the injector\<close>

lemma scan_mistake_hands_over:
  assumes "heaps_ok cfg heaps" and "\<not> fallback_position (nimm_sum cfg heaps) heaps"
  shows "\<exists>i k. scan_mistake (nimm_sum cfg heaps) 0 heaps = Some (i, k) \<and> legal_move heaps (i, k) \<and>
                nimm_sum cfg (apply_move heaps (i, k)) \<noteq> 0"
proof -
  from assms have nonneg: "\<forall>h\<in>set heaps. 0 \<le> h" and s: "nimm_sum cfg heaps = xor_list heaps"
    by (simp_all add: heaps_ok_def heaps_ok_nimm_sum)
  from assms obtain i k where sc: "scan_mistake (nimm_sum cfg heaps) 0 heaps = Some (i, k)"
    using scan_mistake_None_fallback_position [OF assms(1)] by fastforce
  from scan_mistake_0_Some [OF sc] s have
    "i < length heaps" "perturbable (xor_list heaps) (heaps ! i)"
    "k = mistake_amount (xor_list heaps) (heaps ! i)" by simp_all
  from perturbed_move_legal_and_nonzero [OF this(1) nonneg this(2,3)]
  have legal: "legal_move heaps (i, k)" and nz: "xor_list (apply_move heaps (i, k)) \<noteq> 0"
    by simp_all
  have "nimm_sum cfg (apply_move heaps (i, k)) \<noteq> 0"
    using legal_move_heaps_ok [OF assms(1) legal] nz by (simp add: heaps_ok_nimm_sum)
  with sc legal show ?thesis by blast
qed

text \<open>
  C24: the MistakeInjector contract (spec 4.2 and the third
  testable property of section 8) where the code meets it. On well-formed heaps that are
  not a fallback position, \<open>make_mistake\<close> returns a legal move without a random
  draw, and the position it leaves has a non-zero nimm sum, so the opponent can win.
\<close>

theorem make_mistake_hands_over:
  assumes "heaps_ok cfg heaps" and "\<not> fallback_position (nimm_sum cfg heaps) heaps"
  shows "\<exists>i k. make_mistake cfg heaps ds = Inr ((i, k), ds) \<and> legal_move heaps (i, k) \<and>
                nimm_sum cfg (apply_move heaps (i, k)) \<noteq> 0"
  using scan_mistake_hands_over [OF assms] make_mistake_scan by blast

theorem make_mistake_hands_over_witness:
  "heaps_ok (default_config\<lparr>n_heaps := 2\<rparr>) [5, 3] \<and>
   \<not> fallback_position (nimm_sum (default_config\<lparr>n_heaps := 2\<rparr>) [5, 3]) [5, 3] \<and>
   make_mistake (default_config\<lparr>n_heaps := 2\<rparr>) [5, 3] (sconst 0) = Inr ((0, 1), sconst 0) \<and>
   nimm_sum (default_config\<lparr>n_heaps := 2\<rparr>) (apply_move [5, 3] (0, 1)) = 7"
proof -
  let ?cfg = "default_config\<lparr>n_heaps := 2\<rparr>"
  have ok: "heaps_ok ?cfg [5, 3]" by (simp add: heaps_ok_def default_config_def)
  have nf: "\<not> fallback_position (nimm_sum ?cfg [5, 3]) [5, 3]"
    by (simp add: fallback_position_def nimm_sum_def default_config_def upt_rec)
  from make_mistake_hands_over [OF ok nf, of "sconst 0"] ok nf show ?thesis
    by (simp add: make_mistake_def nimm_sum_def default_config_def upt_rec apply_move_def)
qed

text \<open>
  C25: when the injector gives up. On well-formed heaps
  the scan of \<open>make_mistake\<close> finds no heap to perturb exactly when the nimm sum is
  zero, or it is one and every odd heap holds one stone; only then does
  \<open>make_mistake\<close> fall back to \<open>choose_random\<close>. (The source comment and spec 4.2
  say instead: when every correct move takes a whole heap.)
\<close>

theorem make_mistake_fallback_exactly:
  assumes "heaps_ok cfg heaps"
  shows "(scan_mistake (nimm_sum cfg heaps) 0 heaps = None \<longleftrightarrow>
          fallback_position (nimm_sum cfg heaps) heaps) \<and>
         (fallback_position (nimm_sum cfg heaps) heaps \<longrightarrow>
          make_mistake cfg heaps ds = choose_random heaps ds)"
  using scan_mistake_None_fallback_position [OF assms] make_mistake_fallback by blast

theorem make_mistake_fallback_exactly_witness:
  "heaps_ok default_config [1, 1, 3] \<and>
   scan_mistake (nimm_sum default_config [1, 1, 3]) 0 [1, 1, 3] \<noteq> None \<and>
   \<not> fallback_position (nimm_sum default_config [1, 1, 3]) [1, 1, 3] \<and>
   heaps_ok default_config [1, 1, 1] \<and>
   make_mistake default_config [1, 1, 1] (sconst 0) = choose_random [1, 1, 1] (sconst 0)"
proof -
  have ok1: "heaps_ok default_config [1, 1, 3]" by (simp add: heaps_ok_def default_config_def)
  have ok2: "heaps_ok default_config [1, 1, 1]" by (simp add: heaps_ok_def default_config_def)
  have s1: "scan_mistake (nimm_sum default_config [1, 1, 3]) 0 [1, 1, 3] \<noteq> None"
    by (simp add: nimm_sum_def default_config_def upt_rec)
  have f2: "fallback_position (nimm_sum default_config [1, 1, 1]) [1, 1, 1]"
    by (simp add: fallback_position_def nimm_sum_def default_config_def upt_rec)
  from make_mistake_fallback_exactly [OF ok1, of "sconst 0"] s1
  have "\<not> fallback_position (nimm_sum default_config [1, 1, 3]) [1, 1, 3]" by blast
  with make_mistake_fallback_exactly [OF ok2, of "sconst 0"] ok1 ok2 s1 f2 show ?thesis by blast
qed

text \<open>
  C26: the injector is the engine's move off by one (spec
  4.2, ``derived from NimmSumEngine's output''). When \<open>play_correctly\<close> would remove
  \<open>c\<close> stones from heap \<open>i\<close> and \<open>c\<close> can be changed by one within the heap,
  \<open>make_mistake\<close> moves on the same heap, removing \<open>c - 1\<close> stones if
  \<open>c > 1\<close> and \<open>c + 1\<close> otherwise; in particular a correct move that empties a
  heap of several stones becomes one that leaves a single stone.
\<close>

theorem make_mistake_perturbs_engine:
  assumes "heaps_ok cfg heaps" and "nimm_sum cfg heaps \<noteq> 0"
    and "play_correctly cfg heaps ds = Inr ((i, c), ds')" and "1 < c \<or> c < heaps ! i"
  shows "make_mistake cfg heaps ds = Inr ((i, if 1 < c then c - 1 else c + 1), ds)"
proof -
  let ?s = "nimm_sum cfg heaps"
  from play_correctly_scan_result [OF assms(1,2,3)]
  have "scan_correct ?s 0 heaps = Some (i, c)" by simp
  from scan_correct_0_Some [OF this] have
    i: "i < length heaps" and q: "qualifying ?s (heaps ! i)"
    and first: "\<forall>j<i. \<not> qualifying ?s (heaps ! j)"
    and c: "c = heaps ! i - (heaps ! i XOR ?s)" by simp_all
  have p: "perturbable ?s (heaps ! i)"
    using q c assms(4) by (simp add: perturbable_def correct_amount_def)
  have "\<forall>j<i. \<not> perturbable ?s (heaps ! j)"
    using first by (simp add: perturbable_def)
  with i p have "first_index (perturbable ?s) heaps = Some i"
    by (rule first_index_eqI)
  then have "scan_mistake ?s 0 heaps = Some (i, mistake_amount ?s (heaps ! i))"
    by (simp add: scan_mistake_first_index)
  moreover have "mistake_amount ?s (heaps ! i) = (if 1 < c then c - 1 else c + 1)"
    using c by (simp add: mistake_amount_def correct_amount_def)
  ultimately show ?thesis by (simp add: make_mistake_scan)
qed

theorem make_mistake_perturbs_engine_witness:
  "heaps_ok default_config [0, 0, 5] \<and> nimm_sum default_config [0, 0, 5] \<noteq> 0 \<and>
   play_correctly default_config [0, 0, 5] (sconst 0) = Inr ((2, 5), sconst 0) \<and>
   make_mistake default_config [0, 0, 5] (sconst 0) = Inr ((2, 4), sconst 0)"
proof -
  have ok: "heaps_ok default_config [0, 0, 5]" by (simp add: heaps_ok_def default_config_def)
  have nz: "nimm_sum default_config [0, 0, 5] \<noteq> 0"
    by (simp add: nimm_sum_def default_config_def upt_rec)
  have pc: "play_correctly default_config [0, 0, 5] (sconst 0) = Inr ((2, 5), sconst 0)"
    by (simp add: play_correctly_def nimm_sum_def default_config_def upt_rec)
  have "(1::int) < 5 \<or> (5::int) < [0, 0, 5] ! 2" by simp
  from make_mistake_perturbs_engine [OF ok nz pc this] ok nz pc show ?thesis by simp
qed



end
