(* ===== verification/HumanInput.thy ===== *)
theory HumanInput
  imports HeapState
begin

text \<open>
  HumanMoveProvider and the opponent prompt: \<open>human_turn\<close>, \<open>input_heap\<close>,
  \<open>input_stones\<close>, \<open>heap_invalid\<close>, \<open>stones_invalid\<close> (src/unbeatable.py, lines
  165--199) and \<open>choose_opponent\<close>, \<open>opponent_invalid\<close> (lines 246--260). Standard
  input is the list of lines still to be read: \<open>input()\<close> takes the first, and
  raises EOFError when none is left. Each \<open>while\<close> re-prompt loop is a function
  recursive on that list. The printed prompts and error messages are in theory Console.
  The theorems show that a move the human completes is always legal, that the only
  exception is the end of input, that the loops take the first acceptable line and
  skip every line before it, that every legal move is accepted when typed as the
  numbers the prompts ask for, and how the opponent choice reads its input.
\<close>

definition heap_invalid :: "config \<Rightarrow> string \<Rightarrow> heap_list \<Rightarrow> py_error + bool" where
  "heap_invalid cfg heap heaps =
     (if py_isdigit heap \<and> 1 \<le> py_int heap \<and> py_int heap \<le> int (n_heaps cfg) then
        (case py_getitem heaps (nat (py_int heap - 1)) of
           Inl e \<Rightarrow> Inl e
         | Inr h \<Rightarrow> Inr (\<not> 0 < h))
      else Inr True)"

definition stones_invalid :: "string \<Rightarrow> int \<Rightarrow> bool" where
  "stones_invalid stones_taken heap_size \<longleftrightarrow>
     \<not> (py_isdigit stones_taken \<and> 1 \<le> py_int stones_taken \<and> py_int stones_taken \<le> heap_size)"

fun input_heap_loop :: "config \<Rightarrow> heap_list \<Rightarrow> string \<Rightarrow> string list \<Rightarrow> py_error + nat \<times> string list" where
  "input_heap_loop cfg heaps heap inputs =
     (case heap_invalid cfg heap heaps of
        Inl e \<Rightarrow> Inl e
      | Inr True \<Rightarrow>
          (case inputs of
             [] \<Rightarrow> Inl EOFError
           | heap' # inputs' \<Rightarrow> input_heap_loop cfg heaps heap' inputs')
      | Inr False \<Rightarrow> Inr (nat (py_int heap - 1), inputs))"

definition input_heap :: "config \<Rightarrow> heap_list \<Rightarrow> string list \<Rightarrow> py_error + nat \<times> string list" where
  "input_heap cfg heaps inputs =
     (case inputs of [] \<Rightarrow> Inl EOFError | heap # inputs' \<Rightarrow> input_heap_loop cfg heaps heap inputs')"

fun input_stones_loop :: "heap_list \<Rightarrow> nat \<Rightarrow> string \<Rightarrow> string list \<Rightarrow> py_error + int \<times> string list" where
  "input_stones_loop heaps heap stones_taken inputs =
     (case py_getitem heaps heap of
        Inl e \<Rightarrow> Inl e
      | Inr heap_size \<Rightarrow>
          (if stones_invalid stones_taken heap_size then
             (case inputs of
                [] \<Rightarrow> Inl EOFError
              | s # inputs' \<Rightarrow> input_stones_loop heaps heap s inputs')
           else Inr (py_int stones_taken, inputs)))"

definition input_stones :: "heap_list \<Rightarrow> nat \<Rightarrow> string list \<Rightarrow> py_error + int \<times> string list" where
  "input_stones heaps heap inputs =
     (case inputs of [] \<Rightarrow> Inl EOFError | s # inputs' \<Rightarrow> input_stones_loop heaps heap s inputs')"

definition human_turn :: "config \<Rightarrow> heap_list \<Rightarrow> string list \<Rightarrow> py_error + heap_list \<times> string list" where
  "human_turn cfg heaps inputs =
     (case input_heap cfg heaps inputs of
        Inl e \<Rightarrow> Inl e
      | Inr (heap, inputs') \<Rightarrow>
          (case input_stones heaps heap inputs' of
             Inl e \<Rightarrow> Inl e
           | Inr (stones_taken, inputs'') \<Rightarrow> Inr (apply_move heaps (heap, stones_taken), inputs'')))"

definition opponent_invalid :: "string \<Rightarrow> bool" where
  "opponent_invalid opponent \<longleftrightarrow> \<not> (py_isdigit opponent \<and> (py_int opponent = 1 \<or> py_int opponent = 2))"

fun choose_opponent_loop :: "string \<Rightarrow> string list \<Rightarrow> py_error + opponent \<times> string list" where
  "choose_opponent_loop opponent inputs =
     (if opponent_invalid opponent then
        (case inputs of
           [] \<Rightarrow> Inl EOFError
         | s # inputs' \<Rightarrow> choose_opponent_loop s inputs')
      else Inr (if opponent = ''2'' then Nymm else Nimm, inputs))"

definition choose_opponent :: "string list \<Rightarrow> py_error + opponent \<times> string list" where
  "choose_opponent inputs =
     (case inputs of [] \<Rightarrow> Inl EOFError | s # inputs' \<Rightarrow> choose_opponent_loop s inputs')"

declare input_heap_loop.simps [simp del] input_stones_loop.simps [simp del]
  choose_opponent_loop.simps [simp del]

text \<open>The definitions that evaluate a human turn and the opponent prompt on concrete input.\<close>

lemmas human_turn_eval = human_turn_def input_heap_def input_stones_def input_heap_loop.simps
  input_stones_loop.simps heap_invalid_def stones_invalid_def py_getitem_def py_parse_defs

lemmas choose_opponent_eval = choose_opponent_def choose_opponent_loop.simps opponent_invalid_def py_parse_defs

subsection \<open>The validation loops\<close>

lemma heap_invalid_False:
  "heap_invalid cfg heap heaps = Inr False \<Longrightarrow>
     nat (py_int heap - 1) < length heaps \<and> 0 < heaps ! nat (py_int heap - 1)"
  by (auto simp: heap_invalid_def py_getitem_def split: if_splits sum.splits)

lemma heap_invalid_Inl:
  "length heaps = n_heaps cfg \<Longrightarrow> heap_invalid cfg heap heaps \<noteq> Inl e"
  by (auto simp: heap_invalid_def py_getitem_def split: if_splits sum.splits)

lemma input_heap_loop_Inr:
  "input_heap_loop cfg heaps heap inputs = Inr (i, rest) \<Longrightarrow>
     i < length heaps \<and> 0 < heaps ! i \<and> (\<exists>n. rest = drop n inputs)"
proof (induction cfg heaps heap inputs rule: input_heap_loop.induct)
  case (1 cfg heaps heap inputs)
  show ?case
  proof (cases "heap_invalid cfg heap heaps")
    case (Inl e)
    with "1.prems" show ?thesis by (simp add: input_heap_loop.simps [of cfg heaps heap inputs])
  next
    case (Inr b)
    show ?thesis
    proof (cases b)
      case True
      with Inr "1.prems" obtain h' inputs' where
        inp: "inputs = h' # inputs'" "input_heap_loop cfg heaps h' inputs' = Inr (i, rest)"
        by (auto simp: input_heap_loop.simps [of cfg heaps heap inputs] split: list.splits)
      from Inr True have Inr': "heap_invalid cfg heap heaps = Inr True" by simp
      from "1.IH" [OF Inr' refl inp(1) inp(2)] obtain n where
        "i < length heaps \<and> 0 < heaps ! i" "rest = drop n inputs'" by blast
      moreover from inp(1) \<open>rest = drop n inputs'\<close> have "rest = drop (Suc n) inputs" by simp
      ultimately show ?thesis by blast
    next
      case False
      with Inr "1.prems" heap_invalid_False [of cfg heap heaps] show ?thesis
        by (auto simp: input_heap_loop.simps [of cfg heaps heap inputs] intro: exI [of _ 0])
    qed
  qed
qed

lemma input_heap_loop_Inl:
  "length heaps = n_heaps cfg \<Longrightarrow> input_heap_loop cfg heaps heap inputs = Inl e \<Longrightarrow> e = EOFError"
proof (induction cfg heaps heap inputs rule: input_heap_loop.induct)
  case (1 cfg heaps heap inputs)
  from heap_invalid_Inl [OF "1.prems"(1)] obtain b where b: "heap_invalid cfg heap heaps = Inr b"
    by (cases "heap_invalid cfg heap heaps") auto
  show ?case
  proof (cases b)
    case True
    with b have b': "heap_invalid cfg heap heaps = Inr True" by simp
    with "1.prems"(2) "1.IH" [OF b' refl] "1.prems"(1) show ?thesis
      by (auto simp: input_heap_loop.simps [of cfg heaps heap inputs] split: list.splits)
  next
    case False
    with b "1.prems"(2) show ?thesis by (simp add: input_heap_loop.simps [of cfg heaps heap inputs])
  qed
qed

lemma input_stones_loop_Inr:
  "input_stones_loop heaps heap s inputs = Inr (k, rest) \<Longrightarrow>
     heap < length heaps \<and> 1 \<le> k \<and> k \<le> heaps ! heap \<and> (\<exists>n. rest = drop n inputs)"
proof (induction heaps heap s inputs rule: input_stones_loop.induct)
  case (1 heaps heap s inputs)
  from "1.prems" have len: "heap < length heaps"
    by (auto simp: input_stones_loop.simps [of heaps heap s inputs] py_getitem_def split: if_splits)
  show ?case
  proof (cases "stones_invalid s (heaps ! heap)")
    case True
    with len "1.prems" obtain s' inputs' where
      inp: "inputs = s' # inputs'" "input_stones_loop heaps heap s' inputs' = Inr (k, rest)"
      by (auto simp: input_stones_loop.simps [of heaps heap s inputs] split: list.splits)
    from "1.IH" [of "heaps ! heap", OF _ True inp(1) inp(2)] len obtain n where
      "1 \<le> k \<and> k \<le> heaps ! heap" "rest = drop n inputs'" by auto
    moreover from inp(1) \<open>rest = drop n inputs'\<close> have "rest = drop (Suc n) inputs" by simp
    ultimately show ?thesis using len by blast
  next
    case False
    with len "1.prems" show ?thesis
      by (auto simp: input_stones_loop.simps [of heaps heap s inputs] stones_invalid_def intro: exI [of _ 0])
  qed
qed

lemma input_stones_loop_Inl:
  "heap < length heaps \<Longrightarrow> input_stones_loop heaps heap s inputs = Inl e \<Longrightarrow> e = EOFError"
proof (induction heaps heap s inputs rule: input_stones_loop.induct)
  case (1 heaps heap s inputs)
  show ?case
  proof (cases "stones_invalid s (heaps ! heap)")
    case True
    with "1.prems" "1.IH" [of "heaps ! heap", OF _ True] show ?thesis
      by (auto simp: input_stones_loop.simps [of heaps heap s inputs] split: list.splits)
  next
    case False
    with "1.prems" show ?thesis by (simp add: input_stones_loop.simps [of heaps heap s inputs])
  qed
qed

lemma human_turn_cases:
  "human_turn cfg heaps inputs = Inr (heaps', rest) \<Longrightarrow>
     \<exists>i k. legal_move heaps (i, k) \<and> heaps' = apply_move heaps (i, k) \<and> (\<exists>n. rest = drop n inputs)"
proof -
  assume h: "human_turn cfg heaps inputs = Inr (heaps', rest)"
  then obtain i r1 where ih: "input_heap cfg heaps inputs = Inr (i, r1)"
    by (auto simp: human_turn_def split: sum.splits)
  with h obtain k where st: "input_stones heaps i r1 = Inr (k, rest)" and hs: "heaps' = apply_move heaps (i, k)"
    by (auto simp: human_turn_def split: sum.splits)
  from ih obtain h0 inputs0 where inp: "inputs = h0 # inputs0" "input_heap_loop cfg heaps h0 inputs0 = Inr (i, r1)"
    by (auto simp: input_heap_def split: list.splits)
  from input_heap_loop_Inr [OF inp(2)] obtain n1 where "i < length heaps" "r1 = drop n1 inputs0" by blast
  from st obtain s0 r0 where r1: "r1 = s0 # r0" "input_stones_loop heaps i s0 r0 = Inr (k, rest)"
    by (auto simp: input_stones_def split: list.splits)
  from input_stones_loop_Inr [OF r1(2)] obtain n2 where
    "1 \<le> k \<and> k \<le> heaps ! i" "rest = drop n2 r0" by blast
  moreover have "rest = drop (Suc (n2 + Suc n1)) inputs"
  proof -
    have "r0 = tl r1" using r1(1) by simp
    also have "\<dots> = drop (Suc n1) inputs0" using \<open>r1 = drop n1 inputs0\<close> by (simp add: drop_Suc tl_drop)
    finally have "rest = drop (n2 + Suc n1) inputs0" using \<open>rest = drop n2 r0\<close> by simp
    then show ?thesis using inp(1) by simp
  qed
  ultimately have "legal_move heaps (i, k)" and "rest = drop (Suc (n2 + Suc n1)) inputs"
    using \<open>i < length heaps\<close> by (simp_all add: legal_move_def)
  with hs show ?thesis by blast
qed

lemma human_turn_Inl:
  assumes "length heaps = n_heaps cfg" and "human_turn cfg heaps inputs = Inl e"
  shows "e = EOFError"
proof (cases "input_heap cfg heaps inputs")
  case (Inl e')
  with assms(2) have "e' = e" by (simp add: human_turn_def)
  with Inl assms(1) show ?thesis
    by (auto simp: input_heap_def split: list.splits dest: input_heap_loop_Inl)
next
  case (Inr p)
  then obtain i r1 where ih: "input_heap cfg heaps inputs = Inr (i, r1)" by (cases p) auto
  then obtain h0 inputs0 where "input_heap_loop cfg heaps h0 inputs0 = Inr (i, r1)"
    by (auto simp: input_heap_def split: list.splits)
  then have i: "i < length heaps" using input_heap_loop_Inr by blast
  from assms(2) ih have "input_stones heaps i r1 = Inl e"
    by (auto simp: human_turn_def split: sum.splits)
  with i show ?thesis
    by (auto simp: input_stones_def split: list.splits dest: input_stones_loop_Inl)
qed

lemma choose_opponent_loop_Inl: "choose_opponent_loop s inputs = Inl e \<Longrightarrow> e = EOFError"
proof (induction s inputs rule: choose_opponent_loop.induct)
  case (1 s inputs)
  then show ?case
    by (auto simp: choose_opponent_loop.simps [of s inputs] split: if_splits list.splits)
qed

lemma choose_opponent_Inl: "choose_opponent inputs = Inl e \<Longrightarrow> e = EOFError"
  by (auto simp: choose_opponent_def split: list.splits dest: choose_opponent_loop_Inl)

lemma input_heap_loop_first:
  assumes "length heaps = n_heaps cfg"
  shows "input_heap_loop cfg heaps h inputs =
           (case first_index (\<lambda>l. heap_invalid cfg l heaps = Inr False) (h # inputs) of
              None \<Rightarrow> Inl EOFError
            | Some j \<Rightarrow> Inr (nat (py_int ((h # inputs) ! j) - 1), drop j inputs))"
  using assms
proof (induction cfg heaps h inputs rule: input_heap_loop.induct)
  case (1 cfg heaps h inputs)
  show ?case
  proof (cases "heap_invalid cfg h heaps = Inr False")
    case True
    then show ?thesis by (simp add: input_heap_loop.simps [of cfg heaps h inputs])
  next
    case False
    with heap_invalid_Inl [OF "1.prems"] have t: "heap_invalid cfg h heaps = Inr True"
      by (cases "heap_invalid cfg h heaps") auto
    show ?thesis
    proof (cases inputs)
      case Nil
      with t show ?thesis by (simp add: input_heap_loop.simps [of cfg heaps h "[]"])
    next
      case (Cons h' inputs')
      with t "1.IH" [OF t refl Cons "1.prems"] show ?thesis
        by (simp add: input_heap_loop.simps [of cfg heaps h "h' # inputs'"] split: option.splits)
    qed
  qed
qed


lemma input_stones_loop_first:
  assumes "heap < length heaps"
  shows "input_stones_loop heaps heap s inputs =
           (case first_index (\<lambda>l. \<not> stones_invalid l (heaps ! heap)) (s # inputs) of
              None \<Rightarrow> Inl EOFError
            | Some m \<Rightarrow> Inr (py_int ((s # inputs) ! m), drop m inputs))"
  using assms
proof (induction heaps heap s inputs rule: input_stones_loop.induct)
  case (1 heaps heap s inputs)
  show ?case
  proof (cases "stones_invalid s (heaps ! heap)")
    case False
    with "1.prems" show ?thesis by (simp add: input_stones_loop.simps [of heaps heap s inputs])
  next
    case True
    show ?thesis
    proof (cases inputs)
      case Nil
      with True "1.prems" show ?thesis by (simp add: input_stones_loop.simps [of heaps heap s "[]"])
    next
      case (Cons s' inputs')
      with True "1.prems" "1.IH" [of "heaps ! heap", OF _ True Cons "1.prems"] show ?thesis
        by (simp add: input_stones_loop.simps [of heaps heap s "s' # inputs'"] split: option.splits)
    qed
  qed
qed

subsection \<open>Properties of the human move provider\<close>



lemma human_turn_typed_move:
  assumes "heaps_ok cfg heaps" and "legal_move heaps (i, k)"
  shows "human_turn cfg heaps (py_str (Suc i) # py_str (nat k) # rest) = Inr (apply_move heaps (i, k), rest)"
proof -
  from assms have i: "i < length heaps" and k: "1 \<le> k" "k \<le> heaps ! i"
    and len: "length heaps = n_heaps cfg" by (simp_all add: legal_move_def heaps_ok_def)
  have rt1: "py_isdigit (py_str (Suc i))" "py_int (py_str (Suc i)) = int (Suc i)"
    using py_str_roundtrip by simp_all
  have rt2: "py_isdigit (py_str (nat k))" "py_int (py_str (nat k)) = k"
    using py_str_roundtrip [of "nat k"] k by simp_all
  have hv: "heap_invalid cfg (py_str (Suc i)) heaps = Inr False"
    using rt1 i k len by (simp add: heap_invalid_def)
  have "input_heap cfg heaps (py_str (Suc i) # py_str (nat k) # rest) = Inr (i, py_str (nat k) # rest)"
    using hv rt1 by (simp add: input_heap_def input_heap_loop.simps)
  moreover have "input_stones heaps i (py_str (nat k) # rest) = Inr (k, rest)"
    using rt2 i k by (simp add: input_stones_def input_stones_loop.simps stones_invalid_def)
  ultimately show ?thesis by (simp add: human_turn_def)
qed

text \<open>
  C29: parse and print agree. Every legal move is
  accepted at once when typed as the prompts ask, the 1-based heap number
  \<open>str(i + 1)\<close> and then \<open>str(k)\<close>, and \<open>human_turn\<close> applies exactly that
  move, consuming exactly those two lines.
\<close>

theorem human_turn_accepts_legal_move:
  assumes "heaps_ok cfg heaps" and "legal_move heaps (i, k)"
  shows "human_turn cfg heaps (py_str (Suc i) # py_str (nat k) # rest) = Inr (apply_move heaps (i, k), rest)"
  using assms by (rule human_turn_typed_move)

theorem human_turn_accepts_legal_move_witness:
  "heaps_ok default_config [1, 12, 3] \<and> legal_move [1, 12, 3] (1, 10) \<and>
   human_turn default_config [1, 12, 3] (''2'' # ''10'' # []) = Inr ([1, 2, 3], [])"
proof -
  have ok: "heaps_ok default_config [1, 12, 3]" by (simp add: heaps_ok_def default_config_def)
  have lg: "legal_move [1, 12, 3] (1, 10)" by (simp add: legal_move_def)
  have s: "py_str (Suc 1) = ''2''" "py_str (nat 10) = ''10''"
    by code_simp+
  from human_turn_accepts_legal_move [OF ok lg, of "[]"] ok lg s show ?thesis
    by (simp add: apply_move_def)
qed




end
