(* ===== verification/Turn.thy ===== *)
theory Turn
  imports Mistake HumanInput
begin

text \<open>
  TurnController: \<open>cpu_turn\<close> (src/unbeatable.py, lines 90--99) and
  \<open>player_turn\<close> (lines 67--74). The program's input and its random source are one
  \<open>world\<close> record threaded through the turns: the lines of standard input still to
  be read and the stream of random draws. \<open>player_turn\<close> returns the new game state
  and world, or the exception that escapes. The printing of heaps and moves is not
  part of the state (theories Reporter and Console model the printed lines).

  The abstract one-ply contract of spec 4.3 is the relation \<open>turn_step\<close>: while
  stones remain, the human makes any legal move, or the computer makes the move
  \<open>cpu_turn\<close> computes from any random draws; either way the player switches.
  \<open>player_turn\<close> refines it exactly: its results over all inputs and draws are
  the steps of the relation.
\<close>

record world =
  w_inputs :: "string list"
  w_rng :: rng

definition cpu_turn ::
  "config \<Rightarrow> heap_list \<Rightarrow> trigger \<Rightarrow> opponent \<Rightarrow> rng \<Rightarrow> py_error + (heap_list \<times> trigger) \<times> rng" where
  "cpu_turn cfg heaps error_trigger opponent ds =
     (if opponent = Nymm \<and> below_trigger (sum_list heaps) error_trigger then
        (case make_mistake cfg heaps ds of
           Inl e \<Rightarrow> Inl e
         | Inr ((heap, stones_taken), ds') \<Rightarrow>
             Inr ((apply_move heaps (heap, stones_taken), NegInf), ds'))
      else
        (case play_correctly cfg heaps ds of
           Inl e \<Rightarrow> Inl e
         | Inr ((heap, stones_taken), ds') \<Rightarrow>
             Inr ((apply_move heaps (heap, stones_taken), error_trigger), ds')))"

definition player_turn :: "config \<Rightarrow> game \<Rightarrow> world \<Rightarrow> py_error + game \<times> world" where
  "player_turn cfg g w =
     (if g_player g = cpu_player cfg then
        (case cpu_turn cfg (g_heaps g) (g_trigger g) (g_opponent g) (w_rng w) of
           Inl e \<Rightarrow> Inl e
         | Inr ((heaps', error_trigger'), ds') \<Rightarrow>
             Inr (g\<lparr>g_heaps := heaps', g_trigger := error_trigger',
                    g_player := switch_player (g_player g)\<rparr>, w\<lparr>w_rng := ds'\<rparr>))
      else
        (case human_turn cfg (g_heaps g) (w_inputs w) of
           Inl e \<Rightarrow> Inl e
         | Inr (heaps', inputs') \<Rightarrow>
             Inr (g\<lparr>g_heaps := heaps', g_player := switch_player (g_player g)\<rparr>,
                  w\<lparr>w_inputs := inputs'\<rparr>)))"

text \<open>The condition under which \<open>cpu_turn\<close> calls \<open>make_mistake\<close>.\<close>

definition mistake_fires :: "config \<Rightarrow> game \<Rightarrow> bool" where
  "mistake_fires cfg g \<longleftrightarrow>
     g_player g = cpu_player cfg \<and> g_opponent g = Nymm \<and> below_trigger (sum_list (g_heaps g)) (g_trigger g)"

inductive turn_step :: "config \<Rightarrow> game \<Rightarrow> game \<Rightarrow> bool" for cfg where
  human_move:
    "g_player g \<noteq> cpu_player cfg \<Longrightarrow> 0 < sum_list (g_heaps g) \<Longrightarrow> legal_move (g_heaps g) mv \<Longrightarrow>
     turn_step cfg g (g\<lparr>g_heaps := apply_move (g_heaps g) mv, g_player := switch_player (g_player g)\<rparr>)"
| cpu_move:
    "g_player g = cpu_player cfg \<Longrightarrow> 0 < sum_list (g_heaps g) \<Longrightarrow>
     cpu_turn cfg (g_heaps g) (g_trigger g) (g_opponent g) ds = Inr ((hs, t), ds') \<Longrightarrow>
     turn_step cfg g (g\<lparr>g_heaps := hs, g_trigger := t, g_player := switch_player (g_player g)\<rparr>)"

inductive_cases turn_stepE: "turn_step cfg g g'"

subsection \<open>The computer's turn\<close>

text \<open>Away from the mistake, Dr. Nymm's turn is Dr. Nimm's.\<close>

lemma cpu_turn_not_fired:
  "\<not> (opp = Nymm \<and> below_trigger (sum_list heaps) t) \<Longrightarrow> cpu_turn cfg heaps t opp ds = cpu_turn cfg heaps t Nimm ds"
  by (auto simp: cpu_turn_def)

lemma cpu_turn_cases:
  "cpu_turn cfg heaps t opp ds = Inr ((hs, t'), ds') \<Longrightarrow>
     (opp = Nymm \<and> below_trigger (sum_list heaps) t \<and> t' = NegInf \<and>
        (\<exists>i k. make_mistake cfg heaps ds = Inr ((i, k), ds') \<and> hs = apply_move heaps (i, k))) \<or>
     (\<not> (opp = Nymm \<and> below_trigger (sum_list heaps) t) \<and> t' = t \<and>
        (\<exists>i k. play_correctly cfg heaps ds = Inr ((i, k), ds') \<and> hs = apply_move heaps (i, k)))"
  by (auto simp: cpu_turn_def split: if_splits sum.splits prod.splits)

lemma cpu_turn_progress:
  "cpu_turn cfg heaps t opp ds = Inr ((hs, t'), ds') \<Longrightarrow>
     length hs = length heaps \<and> sum_list hs < sum_list heaps"
  by (auto simp: sum_apply_move dest!: cpu_turn_cases play_correctly_progress make_mistake_progress)

lemma play_correctly_legal:
  assumes "heaps_ok cfg heaps" and "play_correctly cfg heaps ds = Inr ((i, k), ds')"
  shows "legal_move heaps (i, k)"
proof (cases "scan_correct (nimm_sum cfg heaps) 0 heaps")
  case None
  with assms(2) have "choose_random heaps ds = Inr ((i, k), ds')" by (simp add: play_correctly_fallback)
  then show ?thesis by (simp add: choose_random_Inr)
next
  case (Some mv)
  with assms(2) have "scan_correct (nimm_sum cfg heaps) 0 heaps = Some (i, k)"
    by (simp add: play_correctly_qualifying)
  with assms(1) show ?thesis using scan_correct_move_wins by blast
qed

lemma make_mistake_legal:
  assumes "heaps_ok cfg heaps" and "make_mistake cfg heaps ds = Inr ((i, k), ds')"
  shows "legal_move heaps (i, k)"
proof (cases "scan_mistake (nimm_sum cfg heaps) 0 heaps")
  case None
  with assms(2) have "choose_random heaps ds = Inr ((i, k), ds')" by (simp add: make_mistake_fallback)
  then show ?thesis by (simp add: choose_random_Inr)
next
  case (Some mv)
  with assms(2) have sc: "scan_mistake (nimm_sum cfg heaps) 0 heaps = Some (i, k)"
    by (simp add: make_mistake_scan)
  from assms(1) have nonneg: "\<forall>h\<in>set heaps. 0 \<le> h" and s: "nimm_sum cfg heaps = xor_list heaps"
    by (simp_all add: heaps_ok_def heaps_ok_nimm_sum)
  from scan_mistake_0_Some [OF sc] s have "i < length heaps" "perturbable (xor_list heaps) (heaps ! i)"
    "k = mistake_amount (xor_list heaps) (heaps ! i)" by simp_all
  from perturbed_move_legal_and_nonzero [OF this(1) nonneg this(2,3)] show ?thesis by simp
qed

lemma cpu_turn_legal:
  assumes "heaps_ok cfg heaps" and "cpu_turn cfg heaps t opp ds = Inr ((hs, t'), ds')"
  shows "\<exists>mv. legal_move heaps mv \<and> hs = apply_move heaps mv"
  using cpu_turn_cases [OF assms(2)] play_correctly_legal [OF assms(1)] make_mistake_legal [OF assms(1)]
  by blast

lemma nonempty_heap_exists: "0 < sum_list (hs::int list) \<Longrightarrow> \<exists>h\<in>set hs. 0 < h"
  by (metis not_less sum_list_nonpos)

lemma play_correctly_ok:
  assumes "0 < sum_list heaps"
  shows "\<exists>mv ds'. play_correctly cfg heaps ds = Inr (mv, ds')"
  using choose_random_ok [OF nonempty_heap_exists [OF assms]]
  by (cases "scan_correct (nimm_sum cfg heaps) 0 heaps") (auto simp: play_correctly_def)

lemma make_mistake_ok:
  assumes "0 < sum_list heaps"
  shows "\<exists>mv ds'. make_mistake cfg heaps ds = Inr (mv, ds')"
  using choose_random_ok [OF nonempty_heap_exists [OF assms]]
  by (cases "scan_mistake (nimm_sum cfg heaps) 0 heaps") (auto simp: make_mistake_def)

lemma cpu_turn_ok:
  assumes "0 < sum_list heaps"
  shows "\<exists>hs t' ds'. cpu_turn cfg heaps t opp ds = Inr ((hs, t'), ds')"
  using play_correctly_ok [OF assms, of cfg ds] make_mistake_ok [OF assms, of cfg ds]
  by (auto simp: cpu_turn_def split: sum.splits)

subsection \<open>One ply\<close>

lemma player_turn_progress:
  "player_turn cfg g w = Inr (g', w') \<Longrightarrow> sum_list (g_heaps g') < sum_list (g_heaps g)"
  by (auto simp: player_turn_def legal_move_sum_less split: if_splits sum.splits prod.splits
           dest: cpu_turn_progress human_turn_cases)

lemma turn_step_sum_less: "turn_step cfg g g' \<Longrightarrow> sum_list (g_heaps g') < sum_list (g_heaps g)"
  by (erule turn_step.cases) (auto simp: legal_move_sum_less dest: cpu_turn_progress)

lemma turn_step_heaps_ok:
  "turn_step cfg g g' \<Longrightarrow> heaps_ok cfg (g_heaps g) \<Longrightarrow> heaps_ok cfg (g_heaps g')"
  by (erule turn_step.cases) (auto intro: legal_move_heaps_ok dest: cpu_turn_legal)

lemma turn_step_player: "turn_step cfg g g' \<Longrightarrow> g_player g' = switch_player (g_player g)"
  by (erule turn_step.cases) auto

lemma turn_step_opponent: "turn_step cfg g g' \<Longrightarrow> g_opponent g' = g_opponent g"
  by (erule turn_step.cases) auto

lemma player_turn_step:
  assumes "0 < sum_list (g_heaps g)" and "player_turn cfg g w = Inr (g', w')"
  shows "turn_step cfg g g'"
proof (cases "g_player g = cpu_player cfg")
  case True
  with assms(2) obtain hs t ds' where
    c: "cpu_turn cfg (g_heaps g) (g_trigger g) (g_opponent g) (w_rng w) = Inr ((hs, t), ds')" and
    g': "g' = g\<lparr>g_heaps := hs, g_trigger := t, g_player := switch_player (g_player g)\<rparr>"
    by (auto simp: player_turn_def split: sum.splits prod.splits)
  from turn_step.cpu_move [OF True assms(1) c] g' show ?thesis by simp
next
  case False
  with assms(2) obtain hs inp where
    h: "human_turn cfg (g_heaps g) (w_inputs w) = Inr (hs, inp)" and
    g': "g' = g\<lparr>g_heaps := hs, g_player := switch_player (g_player g)\<rparr>"
    by (auto simp: player_turn_def split: sum.splits prod.splits)
  from human_turn_cases [OF h] obtain i k where
    "legal_move (g_heaps g) (i, k)" "hs = apply_move (g_heaps g) (i, k)" by blast
  with turn_step.human_move [OF False assms(1), of "(i, k)"] g' show ?thesis by simp
qed

lemma player_turn_Inl:
  assumes "heaps_ok cfg (g_heaps g)" and "0 < sum_list (g_heaps g)" and "player_turn cfg g w = Inl e"
  shows "e = EOFError"
proof (cases "g_player g = cpu_player cfg")
  case True
  from cpu_turn_ok [OF assms(2)] obtain hs t ds' where
    "cpu_turn cfg (g_heaps g) (g_trigger g) (g_opponent g) (w_rng w) = Inr ((hs, t), ds')" by blast
  with True assms(3) show ?thesis by (simp add: player_turn_def)
next
  case False
  with assms(3) have "human_turn cfg (g_heaps g) (w_inputs w) = Inl e"
    by (auto simp: player_turn_def split: sum.splits prod.splits)
  with assms(1) show ?thesis by (intro human_turn_Inl) (simp_all add: heaps_ok_def)
qed

subsection \<open>Properties of the turn controller\<close>

text \<open>
  C8: the computer's turn never raises and never cheats. On every
  well-formed position with stones left, \<open>cpu_turn\<close> returns (no ValueError from
  \<open>max\<close> or \<open>randint\<close>, whatever the opponent, trigger and random draws), its
  move is legal, and the heaps stay well formed.
\<close>

theorem cpu_turn_total_legal:
  assumes "heaps_ok cfg heaps" and "0 < sum_list heaps"
  shows "\<exists>hs t' ds'. cpu_turn cfg heaps t opp ds = Inr ((hs, t'), ds') \<and>
           (\<exists>mv. legal_move heaps mv \<and> hs = apply_move heaps mv) \<and> heaps_ok cfg hs"
proof -
  obtain hs t' ds' where c: "cpu_turn cfg heaps t opp ds = Inr ((hs, t'), ds')"
    using cpu_turn_ok [OF assms(2)] by blast
  from cpu_turn_legal [OF assms(1) c] obtain mv where "legal_move heaps mv" "hs = apply_move heaps mv"
    by blast
  with c assms(1) show ?thesis using legal_move_heaps_ok by blast
qed

theorem cpu_turn_total_legal_witness:
  "heaps_ok default_config [1, 1, 1] \<and> 0 < sum_list [1, 1, 1::int] \<and>
   cpu_turn default_config [1, 1, 1] (Threshold 5) Nymm (sconst 0) = Inr (([0, 1, 1], NegInf), sconst 0)"
proof -
  have ok: "heaps_ok default_config [1, 1, 1]" by (simp add: heaps_ok_def default_config_def)
  have p: "0 < sum_list [1, 1, 1::int]" by simp
  from cpu_turn_total_legal [OF ok p, of "Threshold 5" Nymm "sconst 0"] ok p show ?thesis
    by (simp add: cpu_turn_def make_mistake_def nimm_sum_def default_config_def upt_rec
                  choose_random_def py_max_def randint_def apply_move_def)
qed

text \<open>
  C10: \<open>player_turn\<close> implements the one-ply contract of
  spec 4.3 exactly. On a well-formed position with stones left, a step of the abstract
  relation \<open>turn_step\<close> (any legal human move, or the computer's move for some
  random draws, then the other player's turn) is a result of \<open>player_turn\<close> for some
  input lines and random draws, and every result of \<open>player_turn\<close> is such a step.
\<close>

theorem player_turn_refines_turn_step:
  assumes "heaps_ok cfg (g_heaps g)" and "0 < sum_list (g_heaps g)"
  shows "turn_step cfg g g' \<longleftrightarrow> (\<exists>w w'. player_turn cfg g w = Inr (g', w'))"
proof
  assume "turn_step cfg g g'"
  then show "\<exists>w w'. player_turn cfg g w = Inr (g', w')"
  proof (cases rule: turn_step.cases)
    case (human_move mv)
    obtain i k where mv: "mv = (i, k)" by (cases mv)
    let ?w = "\<lparr>w_inputs = [py_str (Suc i), py_str (nat k)], w_rng = sconst 0\<rparr>"
    have "human_turn cfg (g_heaps g) (w_inputs ?w) = Inr (apply_move (g_heaps g) (i, k), [])"
      using human_turn_typed_move [OF assms(1), of i k "[]"] human_move mv by simp
    with human_move mv have "player_turn cfg g ?w = Inr (g', ?w\<lparr>w_inputs := []\<rparr>)"
      by (simp add: player_turn_def)
    then show ?thesis by blast
  next
    case (cpu_move ds hs t ds')
    let ?w = "\<lparr>w_inputs = [], w_rng = ds\<rparr>"
    from cpu_move have "player_turn cfg g ?w = Inr (g', ?w\<lparr>w_rng := ds'\<rparr>)"
      by (simp add: player_turn_def)
    then show ?thesis by blast
  qed
next
  assume "\<exists>w w'. player_turn cfg g w = Inr (g', w')"
  then obtain w w' where "player_turn cfg g w = Inr (g', w')" by blast
  with assms(2) show "turn_step cfg g g'" by (rule player_turn_step)
qed

theorem player_turn_refines_turn_step_witness:
  "heaps_ok default_config [1, 2, 3] \<and> 0 < sum_list [1, 2, 3::int] \<and>
   turn_step default_config
     \<lparr>g_heaps = [1, 2, 3], g_player = 2, g_trigger = NegInf, g_opponent = Nimm\<rparr>
     \<lparr>g_heaps = [1, 2, 0], g_player = 1, g_trigger = NegInf, g_opponent = Nimm\<rparr>"
proof -
  let ?g = "\<lparr>g_heaps = [1, 2, 3], g_player = 2, g_trigger = NegInf, g_opponent = Nimm\<rparr>"
  let ?g' = "\<lparr>g_heaps = [1, 2, 0], g_player = 1, g_trigger = NegInf, g_opponent = Nimm\<rparr>"
  have ok: "heaps_ok default_config (g_heaps ?g)" by (simp add: heaps_ok_def default_config_def)
  have p: "0 < sum_list (g_heaps ?g)" by simp
  let ?w = "\<lparr>w_inputs = [''3'', ''3''], w_rng = sconst 0\<rparr>"
  have "player_turn default_config ?g ?w = Inr (?g', ?w\<lparr>w_inputs := []\<rparr>)"
    by (simp add: player_turn_def default_config_def human_turn_eval apply_move_def switch_player_def)
  with player_turn_refines_turn_step [OF ok p, of ?g'] ok p show ?thesis by auto
qed



end
