(* ===== verification/Session.thy ===== *)
theory Session
  imports Turn
begin

text \<open>
  GameSession: \<open>set_heaps\<close> (src/unbeatable.py, lines 231--236), \<open>setup_game\<close>
  (lines 219--227), the main loop of \<open>main\<close> (lines 55--59) and
  \<open>announce_winner\<close> (lines 288--298). The loop \<open>while sum(heaps) > 0\<close> is the
  function \<open>game_loop\<close>; it terminates because every turn removes at least one stone
  (\<open>player_turn_progress\<close>), which is its termination proof, with the measure the
  number of stones left. \<open>announce_winner\<close> returns the line it prints;
  the output of \<open>main\<close> and of \<open>display_intro\<close> is in theory Console. The theorem of this theory
  describes the range of \<open>set_heaps\<close>: with random heaps, every list of
  \<open>N_HEAPS\<close> sizes in range and no other.
\<close>

fun set_heaps_loop :: "config \<Rightarrow> nat list \<Rightarrow> heap_list \<Rightarrow> rng \<Rightarrow> py_error + heap_list \<times> rng" where
  "set_heaps_loop cfg [] heaps ds = Inr (heaps, ds)"
| "set_heaps_loop cfg (heap # rest) heaps ds =
     (case randint (heap_min cfg) (heap_max cfg) ds of
        Inl e \<Rightarrow> Inl e
      | Inr (v, ds') \<Rightarrow> set_heaps_loop cfg rest (heaps[heap := v]) ds')"

definition set_heaps :: "config \<Rightarrow> rng \<Rightarrow> py_error + heap_list \<times> rng" where
  "set_heaps cfg ds =
     (let heaps = replicate (n_heaps cfg) (default_heap cfg) in
      if random_heaps cfg then set_heaps_loop cfg [0..<n_heaps cfg] heaps ds else Inr (heaps, ds))"

definition setup_game :: "config \<Rightarrow> world \<Rightarrow> py_error + game \<times> world" where
  "setup_game cfg w =
     (case set_heaps cfg (w_rng w) of
        Inl e \<Rightarrow> Inl e
      | Inr (heaps, ds1) \<Rightarrow>
          (case py_int_float_times (error_min cfg) (sum_list heaps) of
             Inl e \<Rightarrow> Inl e
           | Inr lo \<Rightarrow>
          (case py_int_float_times (error_max cfg) (sum_list heaps) of
             Inl e \<Rightarrow> Inl e
           | Inr hi \<Rightarrow>
          (case randint lo hi ds1 of
             Inl e \<Rightarrow> Inl e
           | Inr (error_trigger, ds2) \<Rightarrow>
               (case choose_opponent (w_inputs w) of
                  Inl e \<Rightarrow> Inl e
                | Inr (opponent, inputs') \<Rightarrow>
                    (let player = cpu_player cfg;
                         player = (if cpu_losing cfg heaps then switch_player player else player)
                     in Inr (\<lparr>g_heaps = heaps, g_player = player, g_trigger = Threshold error_trigger,
                               g_opponent = opponent\<rparr>,
                             \<lparr>w_inputs = inputs', w_rng = ds2\<rparr>)))))))"

function game_loop :: "config \<Rightarrow> game \<Rightarrow> world \<Rightarrow> py_error + game \<times> world" where
  "game_loop cfg g w =
     (if 0 < sum_list (g_heaps g) then
        (case player_turn cfg g w of
           Inl e \<Rightarrow> Inl e
         | Inr (g', w') \<Rightarrow> game_loop cfg g' w')
      else Inr (g, w))"
  by pat_completeness auto
termination
  by (relation "measure (\<lambda>(cfg, g, w). nat (sum_list (g_heaps g)))")
     (auto dest: player_turn_progress)

declare game_loop.simps [simp del]

definition announce_winner :: "config \<Rightarrow> opponent \<Rightarrow> int \<Rightarrow> string" where
  "announce_winner cfg opponent player =
     (if opponent = Nymm then
        (if player = cpu_player cfg
         then ''Congratulations my carboniferous comrade, you have beaten me!''
         else ''I'm sorry, it appears your human thinking organ has malfunctioned and I have prevailed. Better luck next time!'')
      else
        (if player = cpu_player cfg
         then ''This....shouldn't be possible. You won. Please excuse Dr. Nimm while he runs a self-diagnostic.''
         else ''Another notch in the belt for artificial intelligence: I have beaten you!''))"

definition main :: "config \<Rightarrow> world \<Rightarrow> py_error + string \<times> game \<times> world" where
  "main cfg w =
     (case setup_game cfg w of
        Inl e \<Rightarrow> Inl e
      | Inr (g, w1) \<Rightarrow>
          (case game_loop cfg g w1 of
             Inl e \<Rightarrow> Inl e
           | Inr (g', w2) \<Rightarrow> Inr (announce_winner cfg (g_opponent g') (g_player g'), g', w2)))"

subsection \<open>Setting up the heaps\<close>

lemma set_heaps_loop_Inr:
  assumes "set_heaps_loop cfg idx heaps ds = Inr (hs, ds')" and "\<forall>i\<in>set idx. i < length heaps"
  shows "length hs = length heaps \<and>
         (\<forall>j < length hs. if j \<in> set idx then heap_min cfg \<le> hs ! j \<and> hs ! j \<le> heap_max cfg
                          else hs ! j = heaps ! j)"
  using assms
proof (induction cfg idx heaps ds rule: set_heaps_loop.induct)
  case (1 cfg heaps ds)
  then show ?case by simp
next
  case (2 cfg heap rest heaps ds)
  from "2.prems"(1) obtain v ds1 where r: "randint (heap_min cfg) (heap_max cfg) ds = Inr (v, ds1)"
    and l: "set_heaps_loop cfg rest (heaps[heap := v]) ds1 = Inr (hs, ds')"
    by (auto split: sum.splits)
  from randint_range [OF r] have v: "heap_min cfg \<le> v" "v \<le> heap_max cfg" by simp_all
  from "2.prems"(2) have "\<forall>i\<in>set rest. i < length (heaps[heap := v])" by simp
  from "2.IH" [OF r refl l this] "2.prems"(2) v show ?case
    by (auto simp: nth_list_update split: if_splits)
qed

lemma set_heaps_loop_error:
  "heap_min cfg \<le> heap_max cfg \<Longrightarrow> set_heaps_loop cfg idx heaps ds \<noteq> Inl e"
  by (induction cfg idx heaps ds rule: set_heaps_loop.induct) (auto simp: randint_def)

lemma set_heaps_Inr:
  assumes "set_heaps cfg ds = Inr (hs, ds')"
  shows "length hs = n_heaps cfg \<and>
         (\<forall>h\<in>set hs. if random_heaps cfg then heap_min cfg \<le> h \<and> h \<le> heap_max cfg
                     else h = default_heap cfg)"
proof (cases "random_heaps cfg")
  case True
  with assms have "set_heaps_loop cfg [0..<n_heaps cfg] (replicate (n_heaps cfg) (default_heap cfg)) ds = Inr (hs, ds')"
    by (simp add: set_heaps_def)
  from set_heaps_loop_Inr [OF this] True show ?thesis by (auto simp: in_set_conv_nth)
next
  case False
  with assms show ?thesis by (auto simp: set_heaps_def)
qed

lemma set_heaps_ok:
  "valid_config cfg \<Longrightarrow> set_heaps cfg ds = Inr (hs, ds') \<Longrightarrow> heaps_ok cfg hs"
  by (auto simp: heaps_ok_def valid_config_def dest!: set_heaps_Inr split: if_splits)

lemma set_heaps_total: "valid_config cfg \<Longrightarrow> \<exists>hs ds'. set_heaps cfg ds = Inr (hs, ds')"
proof (cases "set_heaps cfg ds")
  case (Inl e)
  assume v: "valid_config cfg"
  then have "heap_min cfg \<le> heap_max cfg" by (simp add: valid_config_def)
  with Inl show ?thesis
    using set_heaps_loop_error [of cfg] by (simp add: set_heaps_def Let_def split: if_splits)
next
  case (Inr p)
  then show ?thesis by (cases p) auto
qed

lemma set_heaps_loop_onto:
  assumes "\<forall>i\<in>set idx. i < length heaps" and "length hs = length heaps"
    and "\<forall>j < length hs. if j \<in> set idx then heap_min cfg \<le> hs ! j \<and> hs ! j \<le> heap_max cfg
                        else hs ! j = heaps ! j"
  shows "set_heaps_loop cfg idx heaps (map (\<lambda>i. nat (hs ! i - heap_min cfg)) idx @- ds) = Inr (hs, ds)"
  using assms
proof (induction idx arbitrary: heaps)
  case Nil
  then show ?case by (simp add: list_eq_iff_nth_eq)
next
  case (Cons i rest)
  have i: "i < length hs" using Cons.prems(1,2) by simp
  with Cons.prems(3) have b: "heap_min cfg \<le> hs ! i" "hs ! i \<le> heap_max cfg" by auto
  have r: "randint (heap_min cfg) (heap_max cfg)
             (nat (hs ! i - heap_min cfg) ## (map (\<lambda>i. nat (hs ! i - heap_min cfg)) rest @- ds)) =
           Inr (hs ! i, map (\<lambda>i. nat (hs ! i - heap_min cfg)) rest @- ds)"
    using randint_onto [OF b] .
  have "set_heaps_loop cfg rest (heaps[i := hs ! i]) (map (\<lambda>i. nat (hs ! i - heap_min cfg)) rest @- ds) = Inr (hs, ds)"
    using Cons.prems by (intro Cons.IH) (auto simp: nth_list_update)
  with r show ?case by simp
qed

lemma set_heaps_onto:
  assumes "random_heaps cfg" and "length hs = n_heaps cfg"
    and "\<forall>h\<in>set hs. heap_min cfg \<le> h \<and> h \<le> heap_max cfg"
  shows "set_heaps cfg (map (\<lambda>i. nat (hs ! i - heap_min cfg)) [0..<n_heaps cfg] @- ds) = Inr (hs, ds)"
proof -
  have "set_heaps_loop cfg [0..<n_heaps cfg] (replicate (n_heaps cfg) (default_heap cfg))
          (map (\<lambda>i. nat (hs ! i - heap_min cfg)) [0..<n_heaps cfg] @- ds) = Inr (hs, ds)"
    using assms(2,3) by (intro set_heaps_loop_onto) auto
  with assms(1) show ?thesis by (simp add: set_heaps_def)
qed

subsection \<open>The main loop\<close>

lemma game_loop_stop: "\<not> 0 < sum_list (g_heaps g) \<Longrightarrow> game_loop cfg g w = Inr (g, w)"
  by (simp add: game_loop.simps)

lemma game_loop_turn:
  "0 < sum_list (g_heaps g) \<Longrightarrow> player_turn cfg g w = Inr (g', w') \<Longrightarrow> game_loop cfg g w = game_loop cfg g' w'"
  by (simp add: game_loop.simps [of cfg g w])

lemma game_loop_raise:
  "0 < sum_list (g_heaps g) \<Longrightarrow> player_turn cfg g w = Inl e \<Longrightarrow> game_loop cfg g w = Inl e"
  by (simp add: game_loop.simps [of cfg g w])

subsection \<open>The range of set_heaps\<close>

text \<open>
  C18: with \<open>RANDOM_HEAPS\<close>, the heap lists \<open>set_heaps\<close> can return
  are exactly the lists of \<open>N_HEAPS\<close> sizes in \<open>[HEAP_MIN, HEAP_MAX]\<close>: each is
  produced by some random draws, and no other list is.
\<close>

theorem set_heaps_range:
  assumes "random_heaps cfg" and "heap_min cfg \<le> heap_max cfg"
  shows "(\<exists>ds ds'. set_heaps cfg ds = Inr (hs, ds')) \<longleftrightarrow>
         length hs = n_heaps cfg \<and> (\<forall>h\<in>set hs. heap_min cfg \<le> h \<and> h \<le> heap_max cfg)"
proof
  assume "\<exists>ds ds'. set_heaps cfg ds = Inr (hs, ds')"
  with set_heaps_Inr assms(1) show "length hs = n_heaps cfg \<and> (\<forall>h\<in>set hs. heap_min cfg \<le> h \<and> h \<le> heap_max cfg)"
    by fastforce
next
  assume "length hs = n_heaps cfg \<and> (\<forall>h\<in>set hs. heap_min cfg \<le> h \<and> h \<le> heap_max cfg)"
  with set_heaps_onto [OF assms(1)] show "\<exists>ds ds'. set_heaps cfg ds = Inr (hs, ds')" by blast
qed

theorem set_heaps_range_witness:
  "set_heaps default_config (0 ## 7 ## 10 ## sconst 0) = Inr ([15, 22, 25], sconst 0) \<and>
   (\<exists>ds ds'. set_heaps default_config ds = Inr ([15, 22, 25], ds')) \<and>
   \<not> (\<exists>ds ds'. set_heaps default_config ds = Inr ([15, 26, 25], ds'))"
proof -
  have r: "random_heaps default_config" "heap_min default_config \<le> heap_max default_config"
    by (simp_all add: default_config_def)
  have s: "set_heaps default_config (0 ## 7 ## 10 ## sconst 0) = Inr ([15, 22, 25], sconst 0)"
    by (simp add: set_heaps_def default_config_def numeral_3_eq_3 randint_def)
  from set_heaps_range [OF r, of "[15, 26, 25]"] have "\<not> (\<exists>ds ds'. set_heaps default_config ds = Inr ([15, 26, 25], ds'))"
    by (simp add: default_config_def)
  with s show ?thesis by blast
qed

end
