(* ===== verification/Strategy.thy ===== *)
theory Strategy
  imports Session
begin

text \<open>
  The game as a state machine (spec 4.4). The reachable states are those
  \<open>setup_game\<close> returns and those one \<open>turn_step\<close> leads to from a reachable
  state, for any human moves and any random draws; with random heaps every list of heaps
  in range starts some session. The invariant \<open>game_inv\<close> holds in all of them: the
  heaps are well formed, the player is 1 or 2, and as long as the mistake has not fired
  the computer is to move exactly when the nimm sum is not zero. From it follow the
  game-level guarantees of the program: Dr. Nimm always wins, Dr. Nymm can only lose
  after his mistake, the mistake fires at most once, a mistake that is not a fallback
  leaves the human a winning position and the human then wins by playing the engine's
  own moves (\<open>engine_step\<close>), no reachable state with stones left is stuck, and the
  game ends within as many plies as there are stones. The last section runs the
  program on small concrete configurations.
\<close>

inductive reachable :: "config \<Rightarrow> game \<Rightarrow> bool" for cfg where
  start: "setup_game cfg w = Inr (g, w') \<Longrightarrow> reachable cfg g"
| turn: "reachable cfg g \<Longrightarrow> turn_step cfg g g' \<Longrightarrow> reachable cfg g'"

fun turn_trace :: "config \<Rightarrow> game \<Rightarrow> game list \<Rightarrow> bool" where
  "turn_trace cfg g [] = True"
| "turn_trace cfg g (g' # gs) = (turn_step cfg g g' \<and> turn_trace cfg g' gs)"

definition game_inv :: "config \<Rightarrow> game \<Rightarrow> bool" where
  "game_inv cfg g \<longleftrightarrow>
     heaps_ok cfg (g_heaps g) \<and> g_player g \<in> {1, 2} \<and>
     (g_opponent g = Nimm \<longrightarrow> g_trigger g \<noteq> NegInf) \<and>
     (g_trigger g \<noteq> NegInf \<longrightarrow> (g_player g = cpu_player cfg \<longleftrightarrow> nimm_sum cfg (g_heaps g) \<noteq> 0))"

text \<open>
  A run in which the human copies the engine: on the human's turns the move is the
  one \<open>play_correctly\<close> returns for the heaps, on the computer's turns any
  \<open>turn_step\<close> of the program.
\<close>

inductive engine_step :: "config \<Rightarrow> game \<Rightarrow> game \<Rightarrow> bool" for cfg where
  human_engine:
    "g_player g \<noteq> cpu_player cfg \<Longrightarrow> 0 < sum_list (g_heaps g) \<Longrightarrow>
     play_correctly cfg (g_heaps g) ds = Inr (mv, ds') \<Longrightarrow>
     engine_step cfg g (g\<lparr>g_heaps := apply_move (g_heaps g) mv, g_player := switch_player (g_player g)\<rparr>)"
| cpu_any: "g_player g = cpu_player cfg \<Longrightarrow> turn_step cfg g g' \<Longrightarrow> engine_step cfg g g'"

text \<open>
  The same game against Dr. Nimm: the docstring presents Dr. Nymm as Dr. Nimm with one
  deliberate error.
\<close>

definition as_nimm :: "game \<Rightarrow> game" where
  "as_nimm g = g\<lparr>g_opponent := Nimm\<rparr>"

text \<open>Two small configurations, used to run the program on concrete inputs.\<close>

abbreviation nimm_config :: config where
  "nimm_config \<equiv> default_config\<lparr>n_heaps := 1, random_heaps := False, default_heap := 1\<rparr>"

abbreviation small_config :: config where
  "small_config \<equiv> default_config\<lparr>n_heaps := 2, random_heaps := False, default_heap := 3\<rparr>"

abbreviation nymm_state :: "heap_list \<Rightarrow> int \<Rightarrow> trigger \<Rightarrow> game" where
  "nymm_state hs p t \<equiv> \<lparr>g_heaps = hs, g_player = p, g_trigger = t, g_opponent = Nymm\<rparr>"

subsection \<open>Setup\<close>

lemma setup_game_cases:
  assumes "setup_game cfg w = Inr (g, w')"
  shows "\<exists>ds1 lo hi t ds2 inputs'. set_heaps cfg (w_rng w) = Inr (g_heaps g, ds1) \<and>
           py_int_float_times (error_min cfg) (sum_list (g_heaps g)) = Inr lo \<and>
           py_int_float_times (error_max cfg) (sum_list (g_heaps g)) = Inr hi \<and>
           randint lo hi ds1 = Inr (t, ds2) \<and>
           choose_opponent (w_inputs w) = Inr (g_opponent g, inputs') \<and>
           g_trigger g = Threshold t \<and>
           g_player g = (if cpu_losing cfg (g_heaps g) then switch_player (cpu_player cfg) else cpu_player cfg) \<and>
           w' = \<lparr>w_inputs = inputs', w_rng = ds2\<rparr>"
  using assms by (auto simp: setup_game_def Let_def split: sum.splits prod.splits)

lemma setup_game_inv:
  assumes "valid_config cfg" and "setup_game cfg w = Inr (g, w')"
  shows "game_inv cfg g"
proof -
  from setup_game_cases [OF assms(2)] obtain ds1 t where
    sh: "set_heaps cfg (w_rng w) = Inr (g_heaps g, ds1)" and tr: "g_trigger g = Threshold t" and
    pl: "g_player g = (if cpu_losing cfg (g_heaps g) then switch_player (cpu_player cfg) else cpu_player cfg)"
    by blast
  have ok: "heaps_ok cfg (g_heaps g)" using set_heaps_ok [OF assms(1) sh] .
  have cp: "cpu_player cfg \<in> {1, 2}" using assms(1) by (simp add: valid_config_def)
  then have "g_player g \<in> {1, 2}" using pl switch_player_in_range by auto
  moreover have "g_player g = cpu_player cfg \<longleftrightarrow> nimm_sum cfg (g_heaps g) \<noteq> 0"
    using pl cp switch_player_neq by (auto simp: cpu_losing_def)
  ultimately show ?thesis using ok tr by (simp add: game_inv_def)
qed

subsection \<open>The invariant\<close>

lemma human_step_inv:
  assumes "valid_config cfg" and "game_inv cfg g" and "g_player g \<noteq> cpu_player cfg"
    and "legal_move (g_heaps g) mv"
  shows "game_inv cfg (g\<lparr>g_heaps := apply_move (g_heaps g) mv, g_player := switch_player (g_player g)\<rparr>)"
proof -
  have ok: "heaps_ok cfg (g_heaps g)" and p: "g_player g \<in> {1, 2}" and cp: "cpu_player cfg \<in> {1, 2}"
    using assms(1,2) by (simp_all add: game_inv_def valid_config_def)
  have sw: "switch_player (g_player g) = cpu_player cfg"
    using assms(3) p cp by (auto simp: switch_player_def)
  have ok': "heaps_ok cfg (apply_move (g_heaps g) mv)" using legal_move_heaps_ok [OF ok assms(4)] .
  have "g_trigger g \<noteq> NegInf \<longrightarrow> nimm_sum cfg (apply_move (g_heaps g) mv) \<noteq> 0"
  proof
    assume "g_trigger g \<noteq> NegInf"
    with assms(2,3) have "nimm_sum cfg (g_heaps g) = 0" by (simp add: game_inv_def)
    with ok have "xor_list (g_heaps g) = 0" by (simp add: heaps_ok_nimm_sum)
    from legal_move_from_zero [OF assms(4) this] ok' show "nimm_sum cfg (apply_move (g_heaps g) mv) \<noteq> 0"
      by (simp add: heaps_ok_nimm_sum)
  qed
  with assms(2) ok' sw cp show ?thesis by (auto simp: game_inv_def)
qed

lemma cpu_step_inv:
  assumes "valid_config cfg" and "game_inv cfg g" and "g_player g = cpu_player cfg"
    and "cpu_turn cfg (g_heaps g) (g_trigger g) (g_opponent g) ds = Inr ((hs, t), ds')"
  shows "game_inv cfg (g\<lparr>g_heaps := hs, g_trigger := t, g_player := switch_player (g_player g)\<rparr>)"
proof -
  have ok: "heaps_ok cfg (g_heaps g)" and cp: "cpu_player cfg \<in> {1, 2}"
    using assms(1,2) by (simp_all add: game_inv_def valid_config_def)
  have sw: "switch_player (g_player g) \<noteq> cpu_player cfg" "switch_player (g_player g) \<in> {1, 2}"
    using assms(3) cp switch_player_neq switch_player_in_range by auto
  from cpu_turn_legal [OF ok assms(4)] ok have ok': "heaps_ok cfg hs"
    using legal_move_heaps_ok by blast
  from cpu_turn_cases [OF assms(4)] show ?thesis
  proof
    assume "g_opponent g = Nymm \<and> below_trigger (sum_list (g_heaps g)) (g_trigger g) \<and> t = NegInf \<and>
       (\<exists>i k. make_mistake cfg (g_heaps g) ds = Inr ((i, k), ds') \<and> hs = apply_move (g_heaps g) (i, k))"
    with ok' sw show ?thesis by (simp add: game_inv_def)
  next
    assume c: "\<not> (g_opponent g = Nymm \<and> below_trigger (sum_list (g_heaps g)) (g_trigger g)) \<and> t = g_trigger g \<and>
       (\<exists>i k. play_correctly cfg (g_heaps g) ds = Inr ((i, k), ds') \<and> hs = apply_move (g_heaps g) (i, k))"
    then obtain i k where pc: "play_correctly cfg (g_heaps g) ds = Inr ((i, k), ds')"
      and hs: "hs = apply_move (g_heaps g) (i, k)" by blast
    have "t \<noteq> NegInf \<longrightarrow> nimm_sum cfg hs = 0"
    proof
      assume "t \<noteq> NegInf"
      with c assms(2,3) have "nimm_sum cfg (g_heaps g) \<noteq> 0" by (simp add: game_inv_def)
      from play_correctly_zeroes [OF ok this pc] hs show "nimm_sum cfg hs = 0" by simp
    qed
    with c assms(2) ok' sw show ?thesis by (auto simp: game_inv_def)
  qed
qed

lemma turn_step_inv:
  assumes "turn_step cfg g g'" and "valid_config cfg" and "game_inv cfg g"
  shows "game_inv cfg g'"
  using assms(1)
proof (cases rule: turn_step.cases)
  case (human_move mv)
  then show ?thesis using human_step_inv [OF assms(2,3)] by blast
next
  case (cpu_move ds hs t ds')
  then show ?thesis using cpu_step_inv [OF assms(2,3)] by blast
qed

lemma reachable_inv: "reachable cfg g \<Longrightarrow> valid_config cfg \<Longrightarrow> game_inv cfg g"
  by (induction rule: reachable.induct) (auto intro: setup_game_inv turn_step_inv)

lemma game_inv_terminal:
  assumes "game_inv cfg g" and "sum_list (g_heaps g) = 0" and "g_trigger g \<noteq> NegInf"
  shows "g_player g \<noteq> cpu_player cfg"
proof -
  from assms(1) have ok: "heaps_ok cfg (g_heaps g)" by (simp add: game_inv_def)
  from heaps_ok_terminal_xor [OF ok assms(2)] ok have "nimm_sum cfg (g_heaps g) = 0"
    by (simp add: heaps_ok_nimm_sum)
  with assms(1,3) show ?thesis by (simp add: game_inv_def)
qed

subsection \<open>Traces\<close>

lemma turn_trace_reachable:
  "reachable cfg g \<Longrightarrow> turn_trace cfg g gs \<Longrightarrow> g' \<in> set gs \<Longrightarrow> reachable cfg g'"
proof (induction gs arbitrary: g)
  case Nil
  then show ?case by simp
next
  case (Cons g1 gs)
  from Cons.prems(1,2) have r1: "reachable cfg g1" by (auto intro: reachable.turn)
  show ?case
  proof (cases "g' = g1")
    case True
    with r1 show ?thesis by simp
  next
    case False
    with Cons.prems(2,3) have "turn_trace cfg g1 gs" "g' \<in> set gs" by auto
    with r1 show ?thesis by (rule Cons.IH)
  qed
qed

lemma turn_step_fired:
  "turn_step cfg g g' \<Longrightarrow> mistake_fires cfg g \<Longrightarrow> g_trigger g' = NegInf"
  by (erule turn_step.cases) (auto simp: mistake_fires_def dest: cpu_turn_cases)

lemma turn_step_keeps_NegInf:
  "turn_step cfg g g' \<Longrightarrow> g_trigger g = NegInf \<Longrightarrow> g_trigger g' = NegInf"
  by (erule turn_step.cases) (auto dest: cpu_turn_cases)

lemma NegInf_not_fires: "g_trigger g = NegInf \<Longrightarrow> \<not> mistake_fires cfg g"
  by (simp add: mistake_fires_def)

lemma turn_trace_NegInf:
  "turn_trace cfg g gs \<Longrightarrow> g_trigger g = NegInf \<Longrightarrow> \<forall>g'\<in>set gs. g_trigger g' = NegInf"
proof (induction gs arbitrary: g)
  case Nil
  then show ?case by simp
next
  case (Cons g1 gs)
  then have "g_trigger g1 = NegInf" by (auto intro: turn_step_keeps_NegInf)
  with Cons show ?case by auto
qed

lemma turn_trace_sum_le:
  "turn_trace cfg g gs \<Longrightarrow> int (length gs) \<le> sum_list (g_heaps g) - sum_list (g_heaps (last (g # gs)))"
proof (induction gs arbitrary: g)
  case Nil
  then show ?case by simp
next
  case (Cons g1 gs)
  then have "sum_list (g_heaps g1) < sum_list (g_heaps g)" "turn_trace cfg g1 gs"
    by (auto intro: turn_step_sum_less)
  with Cons.IH [of g1] show ?case by simp
qed

subsection \<open>The main loop runs the state machine\<close>

lemma game_loop_reachable:
  assumes "valid_config cfg" and "reachable cfg g"
  shows "(game_loop cfg g w = Inl e \<longrightarrow> e = EOFError) \<and>
         (game_loop cfg g w = Inr (g', w') \<longrightarrow> reachable cfg g' \<and> sum_list (g_heaps g') = 0)"
  using assms
proof (induction cfg g w rule: game_loop.induct)
  case (1 cfg g w)
  have ok: "heaps_ok cfg (g_heaps g)"
    using reachable_inv [OF "1.prems"(2,1)] by (simp add: game_inv_def)
  show ?case
  proof (cases "0 < sum_list (g_heaps g)")
    case False
    with ok heaps_ok_sum_nonneg [OF ok] "1.prems"(2) show ?thesis by (auto simp: game_loop_stop)
  next
    case True
    show ?thesis
    proof (cases "player_turn cfg g w")
      case (Inl e')
      with True have "game_loop cfg g w = Inl e'" by (rule game_loop_raise)
      with player_turn_Inl [OF ok True Inl] show ?thesis by simp
    next
      case (Inr p)
      then obtain g1 w1 where pt: "player_turn cfg g w = Inr (g1, w1)" by (cases p) auto
      have r1: "reachable cfg g1"
        using reachable.turn [OF "1.prems"(2) player_turn_step [OF True pt]] .
      from game_loop_turn [OF True pt] "1.IH" [OF True pt refl "1.prems"(1) r1] show ?thesis
        by simp
    qed
  qed
qed

lemma reachable_terminal:
  assumes "valid_config cfg" and "reachable cfg g" and "sum_list (g_heaps g) = 0"
  shows "(g_trigger g \<noteq> NegInf \<longrightarrow> g_player g \<noteq> cpu_player cfg) \<and>
         (g_opponent g = Nimm \<longrightarrow> g_trigger g \<noteq> NegInf) \<and> g_player g \<in> {1, 2}"
  using reachable_inv [OF assms(2,1)] game_inv_terminal [of cfg g] assms(3)
  by (auto simp: game_inv_def)

subsection \<open>Setup errors\<close>

lemma trigger_bounds_ordered:
  assumes "valid_config cfg" and "heaps_ok cfg hs"
    and "\<forall>h\<in>set hs. h \<le> max (heap_max cfg) (default_heap cfg)"
  shows "\<exists>lo hi. py_int_float_times (error_min cfg) (sum_list hs) = Inr lo \<and>
           py_int_float_times (error_max cfg) (sum_list hs) = Inr hi \<and> 0 \<le> lo \<and> lo \<le> hi"
proof -
  obtain mx ex my ey where x: "error_min cfg = Finite mx ex" and y: "error_max cfg = Finite my ey"
    using assms(1) by (auto simp: valid_config_def float_finite_def split: py_float.splits)
  have "sum_list hs \<le> int (length hs) * max (heap_max cfg) (default_heap cfg)"
    using assms(3) by (rule sum_list_le_length_mult)
  then have "sum_list hs < 2 ^ 1000"
    using assms(1,2) by (simp add: valid_config_def heaps_ok_def)
  with py_int_float_times_mono [OF x y] assms(1) heaps_ok_sum_nonneg [OF assms(2)] show ?thesis
    by (simp add: valid_config_def)
qed

lemma set_heaps_bounded:
  assumes "set_heaps cfg ds = Inr (hs, ds')"
  shows "\<forall>h\<in>set hs. h \<le> max (heap_max cfg) (default_heap cfg)"
  using set_heaps_Inr [OF assms] by (auto split: if_splits)

lemma setup_game_Inl_choose_opponent:
  assumes "valid_config cfg" and "setup_game cfg w = Inl e"
  shows "choose_opponent (w_inputs w) = Inl e"
proof -
  obtain hs ds1 where sh: "set_heaps cfg (w_rng w) = Inr (hs, ds1)"
    using set_heaps_total [OF assms(1)] by blast
  from trigger_bounds_ordered [OF assms(1) set_heaps_ok [OF assms(1) sh] set_heaps_bounded [OF sh]]
  obtain lo hi where "py_int_float_times (error_min cfg) (sum_list hs) = Inr lo"
    "py_int_float_times (error_max cfg) (sum_list hs) = Inr hi" "lo \<le> hi" by blast
  moreover have "\<not> randint lo hi ds1 = Inl e'" if "lo \<le> hi" for e' using that by (simp add: randint_error)
  ultimately show ?thesis using assms(2) sh
    by (auto simp: setup_game_def Let_def split: sum.splits prod.splits)
qed

lemma setup_game_Inl:
  assumes "valid_config cfg" and "setup_game cfg w = Inl e"
  shows "e = EOFError"
  using setup_game_Inl_choose_opponent [OF assms] by (rule choose_opponent_Inl)

subsection \<open>Copying the engine after the mistake\<close>

lemma engine_step_keeps:
  assumes "valid_config cfg" and "engine_step cfg h h'" and "heaps_ok cfg (g_heaps h)"
    and "g_player h \<in> {1, 2}" and "g_player h = cpu_player cfg \<longleftrightarrow> nimm_sum cfg (g_heaps h) = 0"
  shows "heaps_ok cfg (g_heaps h') \<and> g_player h' \<in> {1, 2} \<and> g_opponent h' = g_opponent h \<and>
         (g_player h' = cpu_player cfg \<longleftrightarrow> nimm_sum cfg (g_heaps h') = 0)"
  using assms(2)
proof (cases rule: engine_step.cases)
  case (human_engine ds mv ds')
  obtain i k where mv: "mv = (i, k)" by (cases mv)
  have cp: "cpu_player cfg \<in> {1, 2}" using assms(1) by (simp add: valid_config_def)
  from human_engine assms(5) have "nimm_sum cfg (g_heaps h) \<noteq> 0" by simp
  from play_correctly_zeroes [OF assms(3) this human_engine(4) [unfolded mv]] mv
  have "legal_move (g_heaps h) mv" "nimm_sum cfg (apply_move (g_heaps h) mv) = 0" by simp_all
  moreover have "switch_player (g_player h) = cpu_player cfg"
    using human_engine(2) assms(4) cp by (simp add: switch_player_eq_iff)
  ultimately show ?thesis using human_engine(1) assms(3,4) cp
    by (simp add: legal_move_heaps_ok switch_player_in_range)
next
  case cpu_any
  have cp: "cpu_player cfg \<in> {1, 2}" using assms(1) by (simp add: valid_config_def)
  from cpu_any(2) show ?thesis
  proof (cases rule: turn_step.cases)
    case (human_move mv)
    with cpu_any(1) show ?thesis by simp
  next
    case (cpu_move ds hs t ds')
    from cpu_turn_legal [OF assms(3) cpu_move(4)] obtain mv where
      l: "legal_move (g_heaps h) mv" and hs: "hs = apply_move (g_heaps h) mv" by blast
    have ok': "heaps_ok cfg hs" using legal_move_heaps_ok [OF assms(3) l] hs by simp
    from cpu_any(1) assms(3,5) have "xor_list (g_heaps h) = 0" by (simp add: heaps_ok_nimm_sum)
    from legal_move_from_zero [OF l this] hs ok' have "nimm_sum cfg hs \<noteq> 0"
      by (simp add: heaps_ok_nimm_sum)
    moreover have "switch_player (g_player h) \<noteq> cpu_player cfg"
      using cpu_any(1) cp switch_player_neq by simp
    ultimately show ?thesis using cpu_move(1) ok' cpu_any(1) cp by (auto simp: switch_player_def)
  qed
qed

lemma engine_steps_keep:
  assumes "(engine_step cfg)\<^sup>*\<^sup>* h h'" and "valid_config cfg" and "heaps_ok cfg (g_heaps h)"
    and "g_player h \<in> {1, 2}" and "g_player h = cpu_player cfg \<longleftrightarrow> nimm_sum cfg (g_heaps h) = 0"
  shows "heaps_ok cfg (g_heaps h') \<and> g_player h' \<in> {1, 2} \<and> g_opponent h' = g_opponent h \<and>
         (g_player h' = cpu_player cfg \<longleftrightarrow> nimm_sum cfg (g_heaps h') = 0)"
  using assms(1)
proof (induction rule: rtranclp_induct)
  case base
  with assms(3-5) show ?case by simp
next
  case (step h1 h2)
  with engine_step_keeps [OF assms(2) step(2)] show ?case by simp
qed

subsection \<open>Dr. Nymm before his mistake\<close>

lemma turn_step_as_nimm:
  assumes "turn_step cfg g g'" and "\<not> mistake_fires cfg g"
  shows "turn_step cfg (as_nimm g) (as_nimm g')"
  using assms(1)
proof (cases rule: turn_step.cases)
  case (human_move mv)
  have eq: "(as_nimm g)\<lparr>g_heaps := apply_move (g_heaps (as_nimm g)) mv,
          g_player := switch_player (g_player (as_nimm g))\<rparr> = as_nimm g'"
    using human_move(1) by (cases g) (simp add: as_nimm_def)
  have "g_player (as_nimm g) \<noteq> cpu_player cfg" "0 < sum_list (g_heaps (as_nimm g))"
    "legal_move (g_heaps (as_nimm g)) mv" using human_move by (simp_all add: as_nimm_def)
  from turn_step.human_move [OF this] show ?thesis by (simp only: eq)
next
  case (cpu_move ds hs t ds')
  have eq: "(as_nimm g)\<lparr>g_heaps := hs, g_trigger := t, g_player := switch_player (g_player (as_nimm g))\<rparr> =
      as_nimm g'"
    using cpu_move(1) by (cases g) (simp add: as_nimm_def)
  from cpu_move(2) assms(2) have "\<not> (g_opponent g = Nymm \<and> below_trigger (sum_list (g_heaps g)) (g_trigger g))"
    by (simp add: mistake_fires_def)
  from cpu_turn_not_fired [OF this, of cfg ds] cpu_move(4)
  have "cpu_turn cfg (g_heaps g) (g_trigger g) Nimm ds = Inr ((hs, t), ds')" by simp
  with cpu_move have "g_player (as_nimm g) = cpu_player cfg" "0 < sum_list (g_heaps (as_nimm g))"
    "cpu_turn cfg (g_heaps (as_nimm g)) (g_trigger (as_nimm g)) (g_opponent (as_nimm g)) ds = Inr ((hs, t), ds')"
    by (simp_all add: as_nimm_def)
  from turn_step.cpu_move [OF this] show ?thesis by (simp only: eq)
qed

subsection \<open>Concrete runs\<close>

text \<open>
  Runs of the program on concrete inputs: a one-heap game against Dr. Nimm, and a
  two-heap game against Dr. Nymm whose mistake fires (heaps \<open>[3, 3]\<close>, trigger 4).
\<close>

text \<open>The definitions that evaluate \<open>setup_game\<close> on a concrete configuration.\<close>

lemmas setup_game_eval = setup_game_def set_heaps_def upt_rec replicate_numeral float_eval randint_def
  choose_opponent_eval cpu_losing_def nimm_sum_def switch_player_def

lemma nimm_setup:
  "setup_game nimm_config \<lparr>w_inputs = [''1''], w_rng = sconst 0\<rparr> =
   Inr (\<lparr>g_heaps = [1], g_player = 1, g_trigger = Threshold 0, g_opponent = Nimm\<rparr>,
        \<lparr>w_inputs = [], w_rng = sconst 0\<rparr>)"
  by (simp add: setup_game_eval default_config_def)

lemma nimm_turn:
  "player_turn nimm_config \<lparr>g_heaps = [1], g_player = 1, g_trigger = Threshold 0, g_opponent = Nimm\<rparr>
     \<lparr>w_inputs = [], w_rng = sconst 0\<rparr> =
   Inr (\<lparr>g_heaps = [0], g_player = 2, g_trigger = Threshold 0, g_opponent = Nimm\<rparr>,
        \<lparr>w_inputs = [], w_rng = sconst 0\<rparr>)"
  by (simp add: player_turn_def cpu_turn_def default_config_def play_correctly_def nimm_sum_def
      apply_move_def switch_player_def)

lemma nimm_loop:
  "game_loop nimm_config \<lparr>g_heaps = [1], g_player = 1, g_trigger = Threshold 0, g_opponent = Nimm\<rparr>
     \<lparr>w_inputs = [], w_rng = sconst 0\<rparr> =
   Inr (\<lparr>g_heaps = [0], g_player = 2, g_trigger = Threshold 0, g_opponent = Nimm\<rparr>,
        \<lparr>w_inputs = [], w_rng = sconst 0\<rparr>)"
  using game_loop_turn [OF _ nimm_turn] game_loop_stop by simp

lemma nimm_reachable:
  "reachable nimm_config \<lparr>g_heaps = [1], g_player = 1, g_trigger = Threshold 0, g_opponent = Nimm\<rparr> \<and>
   reachable nimm_config \<lparr>g_heaps = [0], g_player = 2, g_trigger = Threshold 0, g_opponent = Nimm\<rparr>"
  using reachable.start [OF nimm_setup] reachable.turn player_turn_step [OF _ nimm_turn] by simp

lemma small_setup:
  "setup_game small_config \<lparr>w_inputs = [''2''], w_rng = 3 ## sconst 0\<rparr> =
   Inr (nymm_state [3, 3] 2 (Threshold 4), \<lparr>w_inputs = [], w_rng = sconst 0\<rparr>)"
  by (simp add: setup_game_eval default_config_def)

lemma small_human_step:
  assumes "g_player g = 2" and "0 < sum_list (g_heaps g)" and "legal_move (g_heaps g) mv"
  shows "turn_step small_config g (g\<lparr>g_heaps := apply_move (g_heaps g) mv, g_player := 1\<rparr>)"
  using turn_step.human_move [where cfg = small_config and g = g and mv = mv] assms
  by (simp add: default_config_def switch_player_def)

lemma small_trace:
  "turn_trace small_config (nymm_state [3, 3] 2 (Threshold 4))
     [nymm_state [2, 3] 1 (Threshold 4), nymm_state [2, 2] 2 (Threshold 4),
      nymm_state [1, 2] 1 (Threshold 4), nymm_state [1, 0] 2 NegInf, nymm_state [0, 0] 1 NegInf]"
proof -
  have h1: "turn_step small_config (nymm_state [3, 3] 2 (Threshold 4)) (nymm_state [2, 3] 1 (Threshold 4))"
    using small_human_step [of "nymm_state [3, 3] 2 (Threshold 4)" "(0, 1)"]
    by (simp add: legal_move_def apply_move_def)
  have c1: "turn_step small_config (nymm_state [2, 3] 1 (Threshold 4)) (nymm_state [2, 2] 2 (Threshold 4))"
    using turn_step.cpu_move [where cfg = small_config and g = "nymm_state [2, 3] 1 (Threshold 4)" and ds = "sconst 0"]
    by (simp add: default_config_def cpu_turn_def play_correctly_def nimm_sum_def upt_rec apply_move_def switch_player_def)
  have h2: "turn_step small_config (nymm_state [2, 2] 2 (Threshold 4)) (nymm_state [1, 2] 1 (Threshold 4))"
    using small_human_step [of "nymm_state [2, 2] 2 (Threshold 4)" "(0, 1)"]
    by (simp add: legal_move_def apply_move_def)
  have c2: "turn_step small_config (nymm_state [1, 2] 1 (Threshold 4)) (nymm_state [1, 0] 2 NegInf)"
    using turn_step.cpu_move [where cfg = small_config and g = "nymm_state [1, 2] 1 (Threshold 4)" and ds = "sconst 0"]
    by (simp add: default_config_def cpu_turn_def make_mistake_def nimm_sum_def upt_rec apply_move_def switch_player_def
        mistake_amount_def correct_amount_def perturbable_def)
  have h3: "turn_step small_config (nymm_state [1, 0] 2 NegInf) (nymm_state [0, 0] 1 NegInf)"
    using small_human_step [of "nymm_state [1, 0] 2 NegInf" "(0, 1)"]
    by (simp add: legal_move_def apply_move_def)
  from h1 c1 h2 c2 h3 show ?thesis by simp
qed

lemma small_reachable:
  "reachable small_config (nymm_state [1, 2] 1 (Threshold 4)) \<and>
   reachable small_config (nymm_state [1, 0] 2 NegInf) \<and> reachable small_config (nymm_state [0, 0] 1 NegInf)"
  using turn_trace_reachable [OF reachable.start [OF small_setup] small_trace] by simp

subsection \<open>What the program guarantees\<close>

text \<open>
  C2: The Unbeatable Dr. Nimm (spec section 1 and the comments of the
  source). In every reachable state of a game against Dr. Nimm in which no stone is
  left, it is not the computer's turn, so the computer took the last stone, and
  \<open>announce_winner\<close> prints the computer's victory, whatever the human played and
  whatever the random draws were.
\<close>

theorem nimm_unbeatable:
  assumes "valid_config cfg" and "reachable cfg g" and "g_opponent g = Nimm"
    and "sum_list (g_heaps g) = 0"
  shows "g_player g \<noteq> cpu_player cfg \<and>
         announce_winner cfg (g_opponent g) (g_player g) =
           ''Another notch in the belt for artificial intelligence: I have beaten you!''"
  using reachable_terminal [OF assms(1,2,4)] assms(3) by (simp add: announce_winner_def)


theorem nimm_unbeatable_witness:
  "valid_config nimm_config \<and>
   reachable nimm_config \<lparr>g_heaps = [0], g_player = 2, g_trigger = Threshold 0, g_opponent = Nimm\<rparr> \<and>
   announce_winner nimm_config Nimm 2 =
     ''Another notch in the belt for artificial intelligence: I have beaten you!''"
  using nimm_unbeatable [of nimm_config "\<lparr>g_heaps = [0], g_player = 2, g_trigger = Threshold 0, g_opponent = Nimm\<rparr>"]
    nimm_reachable
  by (simp add: valid_config_def default_config_def)

text \<open>
  C3: the human can only beat the computer after the deliberate
  error. In every reachable state with no stone left in which it is the computer's turn
  (the human took the last stone), the opponent is Dr. Nymm and his error trigger has
  fired (it is \<open>-inf\<close>).
\<close>

theorem nymm_wins_until_mistake:
  assumes "valid_config cfg" and "reachable cfg g" and "sum_list (g_heaps g) = 0"
    and "g_player g = cpu_player cfg"
  shows "g_opponent g = Nymm \<and> g_trigger g = NegInf"
  using reachable_terminal [OF assms(1,2,3)] assms(4) by (cases "g_opponent g") auto


theorem nymm_wins_until_mistake_witness:
  "valid_config small_config \<and> reachable small_config (nymm_state [0, 0] 1 NegInf) \<and>
   g_player (nymm_state [0, 0] 1 NegInf) = cpu_player small_config \<and>
   g_opponent (nymm_state [0, 0] 1 NegInf) = Nymm \<and> g_trigger (nymm_state [0, 0] 1 NegInf) = NegInf"
  using nymm_wins_until_mistake [of small_config "nymm_state [0, 0] 1 NegInf"] small_reachable
  by (simp add: valid_config_def default_config_def)

text \<open>
  C4: the MistakeInjector fires at most once per session (spec
  section 8). Along any run of turns, at most one state is one in which
  \<open>cpu_turn\<close> calls \<open>make_mistake\<close>: the call sets the trigger to \<open>-inf\<close>, and
  no later turn resets it.
\<close>

theorem mistake_at_most_once:
  assumes "turn_trace cfg g gs"
  shows "length (filter (mistake_fires cfg) (g # gs)) \<le> 1"
  using assms
proof (induction gs arbitrary: g)
  case Nil
  then show ?case by simp
next
  case (Cons g1 gs)
  from Cons.prems have st: "turn_step cfg g g1" and tr: "turn_trace cfg g1 gs" by simp_all
  show ?case
  proof (cases "mistake_fires cfg g")
    case True
    from turn_step_fired [OF st True] have "g_trigger g1 = NegInf" .
    with turn_trace_NegInf [OF tr] have "\<forall>g'\<in>set (g1 # gs). \<not> mistake_fires cfg g'"
      by (auto simp: NegInf_not_fires)
    then have "filter (mistake_fires cfg) (g1 # gs) = []" by (simp add: filter_empty_conv)
    with True show ?thesis by simp
  next
    case False
    with Cons.IH [OF tr] show ?thesis by simp
  qed
qed


theorem mistake_at_most_once_witness:
  "turn_trace small_config (nymm_state [3, 3] 2 (Threshold 4))
     [nymm_state [2, 3] 1 (Threshold 4), nymm_state [2, 2] 2 (Threshold 4),
      nymm_state [1, 2] 1 (Threshold 4), nymm_state [1, 0] 2 NegInf, nymm_state [0, 0] 1 NegInf] \<and>
   length (filter (mistake_fires small_config)
     [nymm_state [3, 3] 2 (Threshold 4), nymm_state [2, 3] 1 (Threshold 4), nymm_state [2, 2] 2 (Threshold 4),
      nymm_state [1, 2] 1 (Threshold 4), nymm_state [1, 0] 2 NegInf, nymm_state [0, 0] 1 NegInf]) \<le> 1"
  using mistake_at_most_once [OF small_trace] small_trace by simp




text \<open>
  C28: every run of turns from a state with well-formed heaps is at
  most as long as the number of stones in it, since each turn removes at least one.
\<close>

theorem game_length_bounded:
  assumes "turn_trace cfg g gs" and "heaps_ok cfg (g_heaps g)"
  shows "length gs \<le> nat (sum_list (g_heaps g))"
proof -
  have "\<forall>g'\<in>set (g # gs). heaps_ok cfg (g_heaps g')"
    using assms
  proof (induction gs arbitrary: g)
    case Nil
    then show ?case by simp
  next
    case (Cons g1 gs)
    then have "heaps_ok cfg (g_heaps g1)" by (auto intro: turn_step_heaps_ok)
    with Cons show ?case by auto
  qed
  then have "0 \<le> sum_list (g_heaps (last (g # gs)))"
    using heaps_ok_sum_nonneg last_in_set by blast
  with turn_trace_sum_le [OF assms(1)] show ?thesis by linarith
qed


theorem game_length_bounded_witness:
  "turn_trace small_config (nymm_state [3, 3] 2 (Threshold 4))
     [nymm_state [2, 3] 1 (Threshold 4), nymm_state [2, 2] 2 (Threshold 4),
      nymm_state [1, 2] 1 (Threshold 4), nymm_state [1, 0] 2 NegInf, nymm_state [0, 0] 1 NegInf] \<and>
   heaps_ok small_config [3, 3] \<and> (5::nat) \<le> nat (sum_list [3, 3 :: int])"
  using game_length_bounded [OF small_trace] small_trace by (simp add: heaps_ok_def default_config_def)

text \<open>
  C5: the mistake hands the game to a human who plays well
  (spec section 8). In a reachable state where it is the human's turn and the nimm sum
  is not zero (which, by the invariant, only happens after Dr. Nymm's mistake), a human
  who from then on plays the move \<open>play_correctly\<close> computes, against any moves of
  the computer, takes the last stone: at the end it is the computer's turn and the
  program prints the human's victory.
\<close>

theorem human_wins_after_mistake:
  assumes "valid_config cfg" and "reachable cfg g" and "g_player g \<noteq> cpu_player cfg"
    and "nimm_sum cfg (g_heaps g) \<noteq> 0" and "(engine_step cfg)\<^sup>*\<^sup>* g g'" and "sum_list (g_heaps g') = 0"
  shows "g_player g' = cpu_player cfg \<and>
         announce_winner cfg (g_opponent g') (g_player g') =
           ''Congratulations my carboniferous comrade, you have beaten me!''"
proof -
  have inv: "game_inv cfg g" using reachable_inv [OF assms(2,1)] .
  then have ok: "heaps_ok cfg (g_heaps g)" and p: "g_player g \<in> {1, 2}" by (simp_all add: game_inv_def)
  from inv assms(3,4) have "g_trigger g = NegInf" by (auto simp: game_inv_def)
  with inv have opp: "g_opponent g = Nymm" by (cases "g_opponent g") (simp_all add: game_inv_def)
  from engine_steps_keep [OF assms(5,1) ok p] assms(3,4)
  have k: "heaps_ok cfg (g_heaps g')" "g_opponent g' = Nymm"
    "g_player g' = cpu_player cfg \<longleftrightarrow> nimm_sum cfg (g_heaps g') = 0" using opp by simp_all
  from heaps_ok_terminal_xor [OF k(1) assms(6)] k(1) have "nimm_sum cfg (g_heaps g') = 0"
    by (simp add: heaps_ok_nimm_sum)
  with k show ?thesis by (simp add: announce_winner_def)
qed

theorem human_wins_after_mistake_witness:
  "valid_config small_config \<and> reachable small_config (nymm_state [1, 0] 2 NegInf) \<and>
   nimm_sum small_config [1, 0] \<noteq> 0 \<and>
   (engine_step small_config)\<^sup>*\<^sup>* (nymm_state [1, 0] 2 NegInf) (nymm_state [0, 0] 1 NegInf) \<and>
   announce_winner small_config Nymm 1 = ''Congratulations my carboniferous comrade, you have beaten me!''"
proof -
  have st: "engine_step small_config (nymm_state [1, 0] 2 NegInf) (nymm_state [0, 0] 1 NegInf)"
    using engine_step.human_engine [where cfg = small_config and g = "nymm_state [1, 0] 2 NegInf" and ds = "sconst 0"]
    by (simp add: default_config_def play_correctly_def nimm_sum_def numeral_2_eq_2 apply_move_def switch_player_def)
  show ?thesis
    using human_wins_after_mistake [of small_config "nymm_state [1, 0] 2 NegInf" "nymm_state [0, 0] 1 NegInf"]
      small_reachable r_into_rtranclp [where r = "engine_step small_config", OF st]
    by (simp add: valid_config_def default_config_def nimm_sum_def upt_rec)
qed

text \<open>
  C16: what \<open>setup_game\<close> returns (spec section 3). The heaps are
  \<open>N_HEAPS\<close> many, each in \<open>[HEAP_MIN, HEAP_MAX]\<close> when they are random and
  \<open>DEFAULT_HEAP\<close> otherwise; the error trigger is an integer between
  \<open>int(ERROR_MIN*total)\<close> and \<open>int(ERROR_MAX*total)\<close>, both computed without
  exception in double precision; and the computer moves
  first exactly when the nimm sum of the heaps is not zero.
\<close>

theorem setup_game_start:
  assumes "valid_config cfg" and "setup_game cfg w = Inr (g, w')"
  shows "length (g_heaps g) = n_heaps cfg \<and>
         (\<forall>h\<in>set (g_heaps g). if random_heaps cfg then heap_min cfg \<le> h \<and> h \<le> heap_max cfg
                                else h = default_heap cfg) \<and>
         (\<exists>t lo hi. g_trigger g = Threshold t \<and>
              py_int_float_times (error_min cfg) (sum_list (g_heaps g)) = Inr lo \<and>
              py_int_float_times (error_max cfg) (sum_list (g_heaps g)) = Inr hi \<and> lo \<le> t \<and> t \<le> hi) \<and>
         (g_player g = cpu_player cfg \<longleftrightarrow> nimm_sum cfg (g_heaps g) \<noteq> 0)"
proof -
  from setup_game_cases [OF assms(2)] obtain ds1 lo hi t ds2 where
    sh: "set_heaps cfg (w_rng w) = Inr (g_heaps g, ds1)" and
    b: "py_int_float_times (error_min cfg) (sum_list (g_heaps g)) = Inr lo"
       "py_int_float_times (error_max cfg) (sum_list (g_heaps g)) = Inr hi" and
    r: "randint lo hi ds1 = Inr (t, ds2)" and
    tr: "g_trigger g = Threshold t" by blast
  have "g_player g = cpu_player cfg \<longleftrightarrow> nimm_sum cfg (g_heaps g) \<noteq> 0"
    using setup_game_inv [OF assms] by (simp add: game_inv_def tr)
  with set_heaps_Inr [OF sh] randint_range [OF r] tr b show ?thesis by blast
qed

theorem setup_game_start_witness:
  "valid_config small_config \<and>
   setup_game small_config \<lparr>w_inputs = [''2''], w_rng = 3 ## sconst 0\<rparr> =
     Inr (nymm_state [3, 3] 2 (Threshold 4), \<lparr>w_inputs = [], w_rng = sconst 0\<rparr>) \<and>
   g_player (nymm_state [3, 3] 2 (Threshold 4)) \<noteq> cpu_player small_config \<and>
   nimm_sum small_config [3, 3] = 0"
  using setup_game_start [OF _ small_setup] small_setup
  by (simp add: valid_config_def default_config_def)

text \<open>
  C7: the invariant of the session (spec sections 3 and 4.4) is
  inductive: \<open>setup_game\<close> establishes it and every ply preserves it. It says that
  the heaps are well formed (\<open>N_HEAPS\<close> heaps, none negative), the player is 1 or 2,
  Dr. Nimm's trigger never fires, and until the trigger fires the computer is to move
  exactly when the nimm sum is not zero.
\<close>

theorem game_inv_inductive:
  assumes "valid_config cfg"
  shows "(setup_game cfg w = Inr (g, w') \<longrightarrow> game_inv cfg g) \<and>
         (game_inv cfg g1 \<longrightarrow> turn_step cfg g1 g2 \<longrightarrow> game_inv cfg g2)"
  using setup_game_inv [OF assms] turn_step_inv [OF _ assms] by blast

theorem game_inv_inductive_witness:
  "valid_config small_config \<and> game_inv small_config (nymm_state [3, 3] 2 (Threshold 4)) \<and>
   turn_step small_config (nymm_state [3, 3] 2 (Threshold 4)) (nymm_state [2, 3] 1 (Threshold 4)) \<and>
   game_inv small_config (nymm_state [2, 3] 1 (Threshold 4))"
proof -
  have v: "valid_config small_config" by (simp add: valid_config_def default_config_def)
  have st: "turn_step small_config (nymm_state [3, 3] 2 (Threshold 4)) (nymm_state [2, 3] 1 (Threshold 4))"
    using small_trace by simp
  from game_inv_inductive [OF v, of "\<lparr>w_inputs = [''2''], w_rng = 3 ## sconst 0\<rparr>"
      "nymm_state [3, 3] 2 (Threshold 4)" "\<lparr>w_inputs = [], w_rng = sconst 0\<rparr>"
      "nymm_state [3, 3] 2 (Threshold 4)" "nymm_state [2, 3] 1 (Threshold 4)"] small_setup st v
  show ?thesis by blast
qed

text \<open>
  C19: the game-level theorems speak of every real game. With
  \<open>RANDOM_HEAPS\<close>, every list of \<open>N_HEAPS\<close> heap sizes in \<open>[HEAP_MIN, HEAP_MAX]\<close>
  and either opponent is the start of a session \<open>setup_game\<close> returns for some
  random draws and some typed choice, so it is a reachable state.
\<close>

theorem every_start_reachable:
  assumes "valid_config cfg" and "random_heaps cfg" and "length hs = n_heaps cfg"
    and "\<forall>h\<in>set hs. heap_min cfg \<le> h \<and> h \<le> heap_max cfg"
  shows "\<exists>g. reachable cfg g \<and> g_heaps g = hs \<and> g_opponent g = opp"
proof -
  let ?ds = "map (\<lambda>i. nat (hs ! i - heap_min cfg)) [0..<n_heaps cfg] @- sconst 0"
  have sh: "set_heaps cfg ?ds = Inr (hs, sconst 0)" using set_heaps_onto [OF assms(2-4)] .
  from trigger_bounds_ordered [OF assms(1) set_heaps_ok [OF assms(1) sh] set_heaps_bounded [OF sh]]
  obtain lo hi where b: "py_int_float_times (error_min cfg) (sum_list hs) = Inr lo"
    "py_int_float_times (error_max cfg) (sum_list hs) = Inr hi" "lo \<le> hi" by blast
  then obtain t ds2 where r: "randint lo hi (sconst 0) = Inr (t, ds2)" by (simp add: randint_def)
  have c: "choose_opponent [if opp = Nymm then ''2'' else ''1''] = Inr (opp, [])"
    by (cases opp) (simp_all add: choose_opponent_eval)
  obtain g w' where "setup_game cfg \<lparr>w_inputs = [if opp = Nymm then ''2'' else ''1''], w_rng = ?ds\<rparr> = Inr (g, w')"
    and "g_heaps g = hs" "g_opponent g = opp"
    using sh b r c by (simp add: setup_game_def Let_def)
  then show ?thesis using reachable.start by blast
qed

theorem every_start_reachable_witness:
  "valid_config default_config \<and> random_heaps default_config \<and> length [15, 22, 25 :: int] = n_heaps default_config \<and>
   (\<exists>g. reachable default_config g \<and> g_heaps g = [15, 22, 25] \<and> g_opponent g = Nymm)"
proof -
  have v: "valid_config default_config" "random_heaps default_config" "length [15, 22, 25 :: int] = n_heaps default_config"
    "\<forall>h\<in>set [15, 22, 25]. heap_min default_config \<le> h \<and> h \<le> heap_max default_config"
    by (simp_all add: valid_config_def default_config_def)
  from every_start_reachable [OF v, of Nymm] v show ?thesis by blast
qed

text \<open>
  C6: what the mistake does to the game (spec 4.2 and 4.3).
  In a reachable state where \<open>cpu_turn\<close> calls \<open>make_mistake\<close> and the position
  is not one where the injector falls back, the next state is reachable, the trigger
  has fired, it is the human's turn and the nimm sum is not zero: exactly the
  situation in which the human wins by copying the engine.
\<close>

theorem mistake_gives_winning_chance:
  assumes "valid_config cfg" and "reachable cfg g" and "mistake_fires cfg g" and "turn_step cfg g g'"
    and "\<not> fallback_position (nimm_sum cfg (g_heaps g)) (g_heaps g)"
  shows "reachable cfg g' \<and> g_trigger g' = NegInf \<and> g_player g' \<noteq> cpu_player cfg \<and>
         nimm_sum cfg (g_heaps g') \<noteq> 0"
proof -
  have ok: "heaps_ok cfg (g_heaps g)" using reachable_inv [OF assms(2,1)] by (simp add: game_inv_def)
  have cp: "cpu_player cfg \<in> {1, 2}" using assms(1) by (simp add: valid_config_def)
  from assms(3) have p: "g_player g = cpu_player cfg" and m: "g_opponent g = Nymm \<and>
      below_trigger (sum_list (g_heaps g)) (g_trigger g)" by (simp_all add: mistake_fires_def)
  from scan_mistake_hands_over [OF ok assms(5)] obtain i k where
    sc: "scan_mistake (nimm_sum cfg (g_heaps g)) 0 (g_heaps g) = Some (i, k)" and
    nz: "nimm_sum cfg (apply_move (g_heaps g) (i, k)) \<noteq> 0" by blast
  from assms(4) have "g_trigger g' = NegInf \<and> g_player g' \<noteq> cpu_player cfg \<and>
      nimm_sum cfg (g_heaps g') \<noteq> 0"
  proof (cases rule: turn_step.cases)
    case (human_move mv)
    with p show ?thesis by simp
  next
    case (cpu_move ds hs t ds')
    from cpu_turn_cases [OF cpu_move(4)] m obtain i' k' where
      "t = NegInf" "make_mistake cfg (g_heaps g) ds = Inr ((i', k'), ds')" "hs = apply_move (g_heaps g) (i', k')"
      by auto
    with make_mistake_scan [OF sc, of ds] nz cpu_move(1) p cp switch_player_neq show ?thesis by auto
  qed
  with reachable.turn [OF assms(2,4)] show ?thesis by blast
qed

theorem mistake_gives_winning_chance_witness:
  "valid_config small_config \<and> reachable small_config (nymm_state [1, 2] 1 (Threshold 4)) \<and>
   mistake_fires small_config (nymm_state [1, 2] 1 (Threshold 4)) \<and>
   turn_step small_config (nymm_state [1, 2] 1 (Threshold 4)) (nymm_state [1, 0] 2 NegInf) \<and>
   nimm_sum small_config [1, 0] = 1"
proof -
  have v: "valid_config small_config" by (simp add: valid_config_def default_config_def)
  have f: "mistake_fires small_config (nymm_state [1, 2] 1 (Threshold 4))"
    by (simp add: mistake_fires_def default_config_def)
  have st: "turn_step small_config (nymm_state [1, 2] 1 (Threshold 4)) (nymm_state [1, 0] 2 NegInf)"
    using small_trace by simp
  have nf: "\<not> fallback_position (nimm_sum small_config [1, 2]) [1, 2]"
    by (simp add: fallback_position_def nimm_sum_def default_config_def numeral_2_eq_2)
  from mistake_gives_winning_chance [OF v _ f st] nf small_reachable v f st show ?thesis
    by (simp add: nimm_sum_def default_config_def numeral_2_eq_2)
qed



text \<open>
  C11: Dr. Nymm is Dr. Nimm except for the mistake (module
  docstring: ``identical to Dr. Nimm, except that he makes one deliberate error''). Every
  run of plies in which the mistake never fires is, with the opponent renamed, a run of
  the same game against Dr. Nimm: a simulation of the Dr. Nymm state machine by the
  Dr. Nimm one along the relation \<open>as_nimm\<close>.
\<close>

theorem nymm_simulates_nimm:
  assumes "turn_trace cfg g gs" and "\<forall>h\<in>set (g # gs). \<not> mistake_fires cfg h"
  shows "turn_trace cfg (as_nimm g) (map as_nimm gs)"
  using assms
proof (induction gs arbitrary: g)
  case Nil
  then show ?case by simp
next
  case (Cons g1 gs)
  then show ?case by (simp add: turn_step_as_nimm)
qed

theorem nymm_simulates_nimm_witness:
  "turn_trace small_config (nymm_state [3, 3] 2 (Threshold 4))
     [nymm_state [2, 3] 1 (Threshold 4), nymm_state [2, 2] 2 (Threshold 4)] \<and>
   turn_trace small_config (as_nimm (nymm_state [3, 3] 2 (Threshold 4)))
     (map as_nimm [nymm_state [2, 3] 1 (Threshold 4), nymm_state [2, 2] 2 (Threshold 4)])"
proof -
  have tr: "turn_trace small_config (nymm_state [3, 3] 2 (Threshold 4))
     [nymm_state [2, 3] 1 (Threshold 4), nymm_state [2, 2] 2 (Threshold 4)]"
    using small_trace by simp
  have "\<forall>h\<in>set [nymm_state [3, 3] 2 (Threshold 4), nymm_state [2, 3] 1 (Threshold 4),
      nymm_state [2, 2] 2 (Threshold 4)]. \<not> mistake_fires small_config h"
    by (simp add: mistake_fires_def default_config_def)
  from nymm_simulates_nimm [OF tr this] tr show ?thesis by blast
qed

end
