(* ===== verification/Reporter.thy ===== *)
theory Reporter
  imports HeapState
begin

text \<open>
  Reporter: the lines the program prints about the state of the game,
  \<open>display_heaps\<close> (src/unbeatable.py, lines 202--204) and the announcement of the
  computer's move in \<open>cpu_turn\<close> (lines 96--97), as functions returning the printed
  lines; \<open>str\<close> of a Python int is \<open>py_str_int\<close>. No control flow of the program
  depends on them. The theorem shows that the heap display is faithful: reading the
  numbers of each line gives back the heap's number and the heap list.
\<close>

definition py_str_int :: "int \<Rightarrow> string" where
  "py_str_int x = (if x < 0 then CHR ''-'' # py_str (nat (- x)) else py_str (nat x))"

definition heap_line :: "nat \<Rightarrow> int \<Rightarrow> string" where
  "heap_line i h = ''Heap '' @ py_str (i + 1) @ '': '' @ py_str_int h"

definition display_heaps :: "config \<Rightarrow> heap_list \<Rightarrow> string list" where
  "display_heaps cfg heaps = map (\<lambda>i. heap_line i (heaps ! i)) [0..<n_heaps cfg]"

definition opponent_name :: "opponent \<Rightarrow> string" where
  "opponent_name opponent = (case opponent of Nimm \<Rightarrow> ''Nimm'' | Nymm \<Rightarrow> ''Nymm'')"

definition cpu_move_message :: "opponent \<Rightarrow> move \<Rightarrow> string list" where
  "cpu_move_message opponent mv =
     (case mv of (heap, stones_taken) \<Rightarrow>
        [''Dr. '' @ opponent_name opponent @ '' removes '' @ py_str_int stones_taken @
         '' stones from heap '' @ py_str (heap + 1), ''''])"

text \<open>
  A reader of the display: the number between \<open>"Heap "\<close> and the colon of a line,
  and the number after the colon.
\<close>

definition read_heap_number :: "string \<Rightarrow> int" where
  "read_heap_number l = py_int (takeWhile (\<lambda>c. c \<noteq> CHR '':'') (drop 5 l))"

definition read_heap_line :: "string \<Rightarrow> int" where
  "read_heap_line l = py_int (drop 2 (dropWhile (\<lambda>c. c \<noteq> CHR '':'') l))"

lemma colon_not_in_py_str: "CHR '':'' \<notin> set (py_str n)"
proof
  assume "CHR '':'' \<in> set (py_str n)"
  with py_str_roundtrip [of n] have "is_digit_char (CHR '':'')"
    by (auto simp: py_isdigit_def list_all_iff)
  then show False by (simp add: is_digit_char_def)
qed

lemma dropWhile_neq_append:
  "a \<notin> set xs \<Longrightarrow> dropWhile (\<lambda>c. c \<noteq> a) (xs @ a # ys) = a # ys"
  by (induction xs) auto

lemma takeWhile_neq_append:
  "a \<notin> set xs \<Longrightarrow> takeWhile (\<lambda>c. c \<noteq> a) (xs @ a # ys) = xs"
  by (induction xs) auto

lemma read_heap_number_heap_line: "read_heap_number (heap_line i h) = int i + 1"
  using colon_not_in_py_str [of "i + 1"] py_str_roundtrip [of "i + 1"]
  by (simp add: read_heap_number_def heap_line_def takeWhile_neq_append)

lemma read_heap_line_heap_line: "0 \<le> h \<Longrightarrow> read_heap_line (heap_line i h) = h"
  using colon_not_in_py_str [of "i + 1"] py_str_roundtrip [of "nat h"]
  by (simp add: read_heap_line_def heap_line_def py_str_int_def dropWhile_neq_append)

text \<open>
  C31: the heap display shows the state. On well-formed heaps
  \<open>display_heaps\<close> prints one line per heap; the line of heap \<open>i\<close> shows the
  number \<open>i + 1\<close>, the one the human types to choose that heap, and after its colon
  the size of heap \<open>i\<close>, so reading the sizes back gives the heap list.
\<close>

theorem display_heaps_roundtrip:
  assumes "heaps_ok cfg heaps"
  shows "length (display_heaps cfg heaps) = n_heaps cfg \<and>
         map read_heap_line (display_heaps cfg heaps) = heaps \<and>
         (\<forall>i < n_heaps cfg. read_heap_number (display_heaps cfg heaps ! i) = int i + 1)"
proof -
  from assms have l: "length heaps = n_heaps cfg" and nn: "\<forall>h\<in>set heaps. 0 \<le> h"
    by (simp_all add: heaps_ok_def)
  have "map read_heap_line (display_heaps cfg heaps) = heaps"
    using nn l by (intro nth_equalityI) (simp_all add: display_heaps_def read_heap_line_heap_line)
  then show ?thesis by (simp add: display_heaps_def read_heap_number_heap_line)
qed

theorem display_heaps_roundtrip_witness:
  "heaps_ok default_config [15, 0, 25] \<and>
   display_heaps default_config [15, 0, 25] = [''Heap 1: 15'', ''Heap 2: 0'', ''Heap 3: 25''] \<and>
   map read_heap_line [''Heap 1: 15'', ''Heap 2: 0'', ''Heap 3: 25''] = [15, 0, 25]"
proof -
  have ok: "heaps_ok default_config [15, 0, 25]" by (simp add: heaps_ok_def default_config_def)
  have d: "display_heaps default_config [15, 0, 25] = [''Heap 1: 15'', ''Heap 2: 0'', ''Heap 3: 25'']"
    by (code_simp)
  from display_heaps_roundtrip [OF ok] ok d show ?thesis by simp
qed

end
