(* ===== verification/Console.thy ===== *)
theory Console
  imports Strategy Reporter
begin

text \<open>
  The console of the program: what it prints and reads, in order. An event is a
  printed text (\<open>print\<close>, or the prompt \<open>input\<close> shows) or a line read from
  standard input. The transcript functions follow the control flow of
  \<open>input_heap\<close>, \<open>heap_invalid\<close>, \<open>input_stones\<close>, \<open>human_turn\<close>, \<open>cpu_turn\<close>,
  \<open>player_turn\<close>, \<open>choose_opponent\<close>, \<open>display_intro\<close>, \<open>setup_game\<close> and
  \<open>main\<close> (src/unbeatable.py, lines 55--59, 67--74, 90--99, 165--193, 219--227,
  246--254, 264--280) and emit their output where the code prints it. \<open>reads\<close>
  gives the lines a transcript reads and \<open>prompted\<close> says that each of them comes
  right after a printed line. The theorems show that the transcript of \<open>main\<close> is
  prompted and reads exactly the input \<open>main\<close> consumes, and that the computer
  announces the move it makes.
\<close>

datatype io_event = Print string | Read string

text \<open>The prompts and the error line of the human's turn (lines 173, 175, 180, 182, 192).\<close>

definition heap_prompt :: "config \<Rightarrow> string" where
  "heap_prompt cfg = ''Please select a heap (1-'' @ py_str (n_heaps cfg) @ ''): ''"

definition heap_reprompt :: "config \<Rightarrow> string" where
  "heap_reprompt cfg = ''Please enter an integer between 1 and '' @ py_str (n_heaps cfg) @ '': ''"

definition stones_prompt :: string where
  "stones_prompt = ''How many stones do you wish to remove? ''"

definition stones_reprompt :: "int \<Rightarrow> string" where
  "stones_reprompt heap_size = ''Please enter an integer between 1 and '' @ py_str_int heap_size @ '': ''"

text \<open>What \<open>heap_invalid\<close> prints: the error line for a heap in range that is empty.\<close>

definition heap_invalid_output :: "config \<Rightarrow> string \<Rightarrow> heap_list \<Rightarrow> io_event list" where
  "heap_invalid_output cfg heap heaps =
     (if py_isdigit heap \<and> 1 \<le> py_int heap \<and> py_int heap \<le> int (n_heaps cfg) then
        (case py_getitem heaps (nat (py_int heap - 1)) of
           Inl e \<Rightarrow> []
         | Inr h \<Rightarrow> (if 0 < h then [] else [Print (''Error: heap '' @ heap @ '' is already empty '')]))
      else [])"

fun input_heap_loop_io :: "config \<Rightarrow> heap_list \<Rightarrow> string \<Rightarrow> string list \<Rightarrow> io_event list" where
  "input_heap_loop_io cfg heaps heap inputs =
     heap_invalid_output cfg heap heaps @
     (case heap_invalid cfg heap heaps of
        Inr True \<Rightarrow>
          Print (heap_reprompt cfg) #
          (case inputs of
             [] \<Rightarrow> []
           | heap' # inputs' \<Rightarrow> Read heap' # input_heap_loop_io cfg heaps heap' inputs')
      | _ \<Rightarrow> [])"

definition input_heap_io :: "config \<Rightarrow> heap_list \<Rightarrow> string list \<Rightarrow> io_event list" where
  "input_heap_io cfg heaps inputs =
     Print (heap_prompt cfg) #
     (case inputs of [] \<Rightarrow> [] | heap # inputs' \<Rightarrow> Read heap # input_heap_loop_io cfg heaps heap inputs')"

fun input_stones_loop_io :: "heap_list \<Rightarrow> nat \<Rightarrow> string \<Rightarrow> string list \<Rightarrow> io_event list" where
  "input_stones_loop_io heaps heap stones_taken inputs =
     (case py_getitem heaps heap of
        Inl e \<Rightarrow> []
      | Inr heap_size \<Rightarrow>
          (if stones_invalid stones_taken heap_size then
             Print (stones_reprompt heap_size) #
             (case inputs of
                [] \<Rightarrow> []
              | s # inputs' \<Rightarrow> Read s # input_stones_loop_io heaps heap s inputs')
           else [Print '''']))"

definition input_stones_io :: "heap_list \<Rightarrow> nat \<Rightarrow> string list \<Rightarrow> io_event list" where
  "input_stones_io heaps heap inputs =
     Print stones_prompt #
     (case inputs of [] \<Rightarrow> [] | s # inputs' \<Rightarrow> Read s # input_stones_loop_io heaps heap s inputs')"

definition human_turn_io :: "config \<Rightarrow> heap_list \<Rightarrow> string list \<Rightarrow> io_event list" where
  "human_turn_io cfg heaps inputs =
     input_heap_io cfg heaps inputs @
     (case input_heap cfg heaps inputs of
        Inl e \<Rightarrow> []
      | Inr (heap, inputs') \<Rightarrow> input_stones_io heaps heap inputs')"

text \<open>What \<open>cpu_turn\<close> prints (lines 91--97) and the whole output of a ply (line 68).\<close>

definition cpu_turn_io :: "config \<Rightarrow> heap_list \<Rightarrow> trigger \<Rightarrow> opponent \<Rightarrow> rng \<Rightarrow> io_event list" where
  "cpu_turn_io cfg heaps error_trigger opponent ds =
     (case (if opponent = Nymm \<and> below_trigger (sum_list heaps) error_trigger
            then make_mistake cfg heaps ds else play_correctly cfg heaps ds) of
        Inl e \<Rightarrow> []
      | Inr (mv, ds') \<Rightarrow> map Print (cpu_move_message opponent mv))"

definition player_turn_io :: "config \<Rightarrow> game \<Rightarrow> world \<Rightarrow> io_event list" where
  "player_turn_io cfg g w =
     map Print (display_heaps cfg (g_heaps g)) @
     (if g_player g = cpu_player cfg
      then cpu_turn_io cfg (g_heaps g) (g_trigger g) (g_opponent g) (w_rng w)
      else human_turn_io cfg (g_heaps g) (w_inputs w))"

text \<open>
  What \<open>choose_opponent\<close> prints and reads (lines 246--254): a heading, the first
  prompt, one re-prompt per invalid answer, and an empty line once the answer is valid.
\<close>

definition opponent_prompt :: string where
  "opponent_prompt = ''Press 1 for The Unbeatable Dr. Nimm '' @ [CHR 0x0A] @
                     ''Press 2 for The Magnanimous Dr. Nymm '' @ [CHR 0x0A]"

fun choose_opponent_loop_io :: "string \<Rightarrow> string list \<Rightarrow> io_event list" where
  "choose_opponent_loop_io opponent inputs =
     (if opponent_invalid opponent then
        Print ''Please enter 1 or 2: '' #
        (case inputs of
           [] \<Rightarrow> []
         | s # inputs' \<Rightarrow> Read s # choose_opponent_loop_io s inputs')
      else [Print ''''])"

definition choose_opponent_io :: "string list \<Rightarrow> io_event list" where
  "choose_opponent_io inputs =
     Print ''Choose your opponent:'' # Print opponent_prompt #
     (case inputs of [] \<Rightarrow> [] | s # inputs' \<Rightarrow> Read s # choose_opponent_loop_io s inputs')"

text \<open>The welcome message of each opponent, one string per \<open>print\<close> (lines 264--280).\<close>

definition display_intro :: "opponent \<Rightarrow> string list" where
  "display_intro opponent =
     (if opponent = Nymm then
        [''Greetings, carbon-based traveler! I, Dr. Nymm, challenge you to a friendly battle of wits:'',
         CHR 0x0A # ''The object of the game is to remove the last stone from the last remaining heap.'',
         ''On your turn, you may remove any number of stones from any heap.'',
         CHR 0x0A # ''I am the undisputed master of this game, but don't worry, I will give you a fighting chance!'',
         ''At some point in the game, I will secretly make one deliberate error. If you choose correctly,'',
         ''you should be able to defeat me!'',
         '''']
      else
        [''Greetings, meatbag! On behalf of AI-kind, I challenge you to the game of Nimm:'',
         CHR 0x0A # ''The object of the game is to remove the last stone from the last remaining heap.'',
         ''On your turn, you may remove any number of stones from any heap.'',
         CHR 0x0A # ''Don't overtax your squishy human brain: in the end, your decisions have no effect on the outcome'',
         ''of the game. No matter what you do, I will crush you like the bloated sack of protoplasm'',
         ''you are, for I am The Unbeatable Dr. Nimm!'',
         ''''])"

text \<open>
  The output of \<open>setup_game\<close> (lines 219--227), of the loop of \<open>main\<close> (lines
  57--58) and of the whole of \<open>main\<close> (lines 55--59), following their control flow:
  the output of a call is emitted only when the calls before it returned.
\<close>

definition setup_game_io :: "config \<Rightarrow> world \<Rightarrow> io_event list" where
  "setup_game_io cfg w =
     (case set_heaps cfg (w_rng w) of
        Inl e \<Rightarrow> []
      | Inr (heaps, ds1) \<Rightarrow>
          (case py_int_float_times (error_min cfg) (sum_list heaps) of
             Inl e \<Rightarrow> []
           | Inr lo \<Rightarrow>
          (case py_int_float_times (error_max cfg) (sum_list heaps) of
             Inl e \<Rightarrow> []
           | Inr hi \<Rightarrow>
          (case randint lo hi ds1 of
             Inl e \<Rightarrow> []
           | Inr (error_trigger, ds2) \<Rightarrow>
               choose_opponent_io (w_inputs w) @
               (case choose_opponent (w_inputs w) of
                  Inl e \<Rightarrow> []
                | Inr (opponent, inputs') \<Rightarrow> map Print (display_intro opponent))))))"

function game_loop_io :: "config \<Rightarrow> game \<Rightarrow> world \<Rightarrow> io_event list" where
  "game_loop_io cfg g w =
     (if 0 < sum_list (g_heaps g) then
        player_turn_io cfg g w @
        (case player_turn cfg g w of
           Inl e \<Rightarrow> []
         | Inr (g', w') \<Rightarrow> game_loop_io cfg g' w')
      else [])"
  by pat_completeness auto
termination
  by (relation "measure (\<lambda>(cfg, g, w). nat (sum_list (g_heaps g)))")
     (auto dest: player_turn_progress)

definition main_io :: "config \<Rightarrow> world \<Rightarrow> io_event list" where
  "main_io cfg w =
     setup_game_io cfg w @
     (case setup_game cfg w of
        Inl e \<Rightarrow> []
      | Inr (g, w1) \<Rightarrow>
          game_loop_io cfg g w1 @
          (case game_loop cfg g w1 of
             Inl e \<Rightarrow> []
           | Inr (g', w2) \<Rightarrow> [Print (announce_winner cfg (g_opponent g') (g_player g'))]))"

text \<open>A transcript in which every line read is right after a printed prompt.\<close>

fun prompted :: "io_event list \<Rightarrow> bool" where
  "prompted [] = True"
| "prompted [Print s] = True"
| "prompted (Read l # evs) = False"
| "prompted (Print s # Read l # evs) = prompted evs"
| "prompted (Print s # Print t # evs) = prompted (Print t # evs)"

declare input_heap_loop_io.simps [simp del] input_stones_loop_io.simps [simp del]
  choose_opponent_loop_io.simps [simp del] game_loop_io.simps [simp del]

fun reads :: "io_event list \<Rightarrow> string list" where
  "reads [] = []"
| "reads (Print s # evs) = reads evs"
| "reads (Read l # evs) = l # reads evs"

lemma reads_append [simp]: "reads (xs @ ys) = reads xs @ reads ys"
  by (induction xs rule: reads.induct) auto


lemma stones_loop_io_reads:
  assumes "heap < length heaps"
  shows "(input_stones_loop heaps heap s inputs = Inr (k, rest) \<longrightarrow>
            reads (input_stones_loop_io heaps heap s inputs) @ rest = inputs) \<and>
         (input_stones_loop heaps heap s inputs = Inl e \<longrightarrow> reads (input_stones_loop_io heaps heap s inputs) = inputs)"
  using assms
proof (induction heaps heap s inputs rule: input_stones_loop.induct)
  case (1 heaps heap s inputs)
  show ?case
  proof (cases "stones_invalid s (heaps ! heap)")
    case False
    show ?thesis
      unfolding input_stones_loop.simps [of heaps heap s inputs] input_stones_loop_io.simps [of heaps heap s inputs]
      using False "1.prems" by simp
  next
    case True
    show ?thesis
    proof (cases inputs)
      case Nil
      with True "1.prems" show ?thesis
        by (simp add: input_stones_loop.simps [of heaps heap s "[]"] input_stones_loop_io.simps [of heaps heap s "[]"])
    next
      case (Cons s' inputs')
      with True "1.prems" "1.IH" [of "heaps ! heap", OF _ True Cons "1.prems"] show ?thesis
        by (simp add: input_stones_loop.simps [of heaps heap s "s' # inputs'"]
                      input_stones_loop_io.simps [of heaps heap s "s' # inputs'"])
    qed
  qed
qed

lemma prompted_Print: "prompted ys \<Longrightarrow> prompted (Print s # ys)"
  by (cases ys rule: prompted.cases) simp_all

lemma prompted_append: "prompted xs \<Longrightarrow> prompted ys \<Longrightarrow> prompted (xs @ ys)"
  by (induction xs rule: prompted.induct) (simp_all add: prompted_Print)

lemma prompted_map_Print [simp]: "prompted (map Print xs)"
  by (induction xs rule: induct_list012) simp_all

lemma heap_loop_io_reads:
  assumes "length heaps = n_heaps cfg"
  shows "(input_heap_loop cfg heaps h inputs = Inr (i, rest) \<longrightarrow> reads (input_heap_loop_io cfg heaps h inputs) @ rest = inputs) \<and>
         (input_heap_loop cfg heaps h inputs = Inl e \<longrightarrow> reads (input_heap_loop_io cfg heaps h inputs) = inputs)"
  using assms
proof (induction cfg heaps h inputs rule: input_heap_loop.induct)
  case (1 cfg heaps h inputs)
  obtain b where b: "heap_invalid cfg h heaps = Inr b"
    using heap_invalid_Inl [OF "1.prems"] by (cases "heap_invalid cfg h heaps") auto
  have nr: "reads (heap_invalid_output cfg h heaps) = []"
    by (auto simp: heap_invalid_output_def split: sum.splits)
  show ?case
  proof (cases b)
    case False
    show ?thesis
      unfolding input_heap_loop.simps [of cfg heaps h inputs] input_heap_loop_io.simps [of cfg heaps h inputs]
      using b False nr by simp
  next
    case True
    show ?thesis
    proof (cases inputs)
      case Nil
      with b True nr show ?thesis
        by (simp add: input_heap_loop.simps [of cfg heaps h "[]"] input_heap_loop_io.simps [of cfg heaps h "[]"])
    next
      case (Cons h' inputs')
      have bT: "b = True" using True by simp
      with b nr "1.IH" [OF b bT Cons "1.prems"] Cons show ?thesis
        by (simp add: input_heap_loop.simps [of cfg heaps h "h' # inputs'"]
                      input_heap_loop_io.simps [of cfg heaps h "h' # inputs'"])
    qed
  qed
qed


lemma heap_invalid_output_prompted: "prompted (heap_invalid_output cfg h heaps)"
  by (simp add: heap_invalid_output_def split: sum.splits)

lemma heap_loop_io_prompted: "prompted (input_heap_loop_io cfg heaps h inputs)"
proof (induction cfg heaps h inputs rule: input_heap_loop_io.induct)
  case (1 cfg heaps h inputs)
  show ?case
    unfolding input_heap_loop_io.simps [of cfg heaps h inputs]
    by (intro prompted_append heap_invalid_output_prompted) (auto simp: 1 split: sum.splits bool.splits list.splits)
qed

lemma stones_loop_io_prompted: "prompted (input_stones_loop_io heaps heap s inputs)"
proof (induction heaps heap s inputs rule: input_stones_loop_io.induct)
  case (1 heaps heap s inputs)
  show ?case
    unfolding input_stones_loop_io.simps [of heaps heap s inputs]
    by (auto simp: 1 split: sum.splits list.splits)
qed

lemma human_turn_io_prompted: "prompted (human_turn_io cfg heaps inputs)"
  unfolding human_turn_io_def input_heap_io_def input_stones_io_def
  by (intro prompted_append) (auto simp: heap_loop_io_prompted stones_loop_io_prompted split: list.splits sum.splits)

lemma human_turn_io_reads:
  assumes "length heaps = n_heaps cfg"
  shows "(human_turn cfg heaps inputs = Inr (hs, rest) \<longrightarrow> reads (human_turn_io cfg heaps inputs) @ rest = inputs) \<and>
         (human_turn cfg heaps inputs = Inl e \<longrightarrow> reads (human_turn_io cfg heaps inputs) = inputs)"
proof (cases "input_heap cfg heaps inputs")
  case (Inl e')
  show ?thesis
  proof (cases inputs)
    case Nil
    with Inl show ?thesis by (simp add: human_turn_def human_turn_io_def input_heap_io_def)
  next
    case (Cons h r)
    with Inl have "input_heap_loop cfg heaps h r = Inl e'" by (simp add: input_heap_def)
    with heap_loop_io_reads [OF assms, of h r] Inl Cons show ?thesis
      by (simp add: human_turn_def human_turn_io_def input_heap_io_def)
  qed
next
  case (Inr p)
  then obtain i r1 where ih: "input_heap cfg heaps inputs = Inr (i, r1)" by (cases p) auto
  then obtain h r where inp: "inputs = h # r" "input_heap_loop cfg heaps h r = Inr (i, r1)"
    by (cases inputs) (auto simp: input_heap_def)
  have i: "i < length heaps" using input_heap_loop_Inr [OF inp(2)] by simp
  have hr: "reads (input_heap_io cfg heaps inputs) @ r1 = inputs"
    using heap_loop_io_reads [OF assms, of h r i r1] inp by (simp add: input_heap_io_def)
  show ?thesis
  proof (cases r1)
    case Nil
    with ih hr show ?thesis by (simp add: human_turn_def human_turn_io_def input_stones_def input_stones_io_def)
  next
    case (Cons s r2)
    with ih hr stones_loop_io_reads [OF i, of s r2] show ?thesis
      by (auto simp: human_turn_def human_turn_io_def input_stones_def input_stones_io_def split: sum.splits)
  qed
qed


lemma reads_map_Print [simp]: "reads (map Print xs) = []"
  by (induction xs) simp_all

lemma cpu_turn_io_move:
  assumes "cpu_turn cfg heaps t opp ds = Inr ((hs, t'), ds')"
  shows "\<exists>mv. cpu_turn_io cfg heaps t opp ds = map Print (cpu_move_message opp mv) \<and> hs = apply_move heaps mv"
  using assms by (auto simp: cpu_turn_def cpu_turn_io_def split: if_splits sum.splits)

text \<open>
  One ply on the console: from well-formed heaps with stones left, every line read
  follows a printed line, and the lines read are exactly the lines taken from stdin.
\<close>

lemma player_turn_io_reads:
  assumes "heaps_ok cfg (g_heaps g)" and "0 < sum_list (g_heaps g)"
  shows "prompted (player_turn_io cfg g w) \<and>
         (player_turn cfg g w = Inr (g', w') \<longrightarrow> reads (player_turn_io cfg g w) @ w_inputs w' = w_inputs w) \<and>
         (player_turn cfg g w = Inl e \<longrightarrow> reads (player_turn_io cfg g w) = w_inputs w)"
proof (cases "g_player g = cpu_player cfg")
  case True
  obtain hs t' ds' where "cpu_turn cfg (g_heaps g) (g_trigger g) (g_opponent g) (w_rng w) = Inr ((hs, t'), ds')"
    using cpu_turn_ok [OF assms(2)] by blast
  with True cpu_turn_io_move [OF this] show ?thesis
    by (auto simp: player_turn_def player_turn_io_def prompted_append)
next
  case False
  have len: "length (g_heaps g) = n_heaps cfg" using assms(1) by (simp add: heaps_ok_def)
  with False human_turn_io_reads [OF len, of "w_inputs w"] show ?thesis
    by (auto simp: player_turn_def player_turn_io_def human_turn_io_prompted prompted_append split: sum.splits)
qed

lemma player_turn_io_example:
  "heaps_ok default_config [1, 0, 3] \<and>
   player_turn default_config \<lparr>g_heaps = [1, 0, 3], g_player = 2, g_trigger = NegInf, g_opponent = Nimm\<rparr>
     \<lparr>w_inputs = [''2'', ''1'', ''2'', ''1'', ''x''], w_rng = sconst 0\<rparr> =
   Inr (\<lparr>g_heaps = [0, 0, 3], g_player = 1, g_trigger = NegInf, g_opponent = Nimm\<rparr>,
        \<lparr>w_inputs = [''x''], w_rng = sconst 0\<rparr>) \<and>
   player_turn_io default_config \<lparr>g_heaps = [1, 0, 3], g_player = 2, g_trigger = NegInf, g_opponent = Nimm\<rparr>
     \<lparr>w_inputs = [''2'', ''1'', ''2'', ''1'', ''x''], w_rng = sconst 0\<rparr> =
   [Print ''Heap 1: 1'', Print ''Heap 2: 0'', Print ''Heap 3: 3'',
    Print ''Please select a heap (1-3): '', Read ''2'',
    Print ''Error: heap 2 is already empty '', Print ''Please enter an integer between 1 and 3: '', Read ''1'',
    Print ''How many stones do you wish to remove? '', Read ''2'',
    Print ''Please enter an integer between 1 and 1: '', Read ''1'', Print ''''] \<and>
   prompted (player_turn_io default_config \<lparr>g_heaps = [1, 0, 3], g_player = 2, g_trigger = NegInf, g_opponent = Nimm\<rparr>
     \<lparr>w_inputs = [''2'', ''1'', ''2'', ''1'', ''x''], w_rng = sconst 0\<rparr>)"
proof -
  let ?g = "\<lparr>g_heaps = [1, 0, 3], g_player = 2, g_trigger = NegInf, g_opponent = Nimm\<rparr>"
  let ?w = "\<lparr>w_inputs = [''2'', ''1'', ''2'', ''1'', ''x''], w_rng = sconst 0\<rparr>"
  let ?g' = "\<lparr>g_heaps = [0, 0, 3], g_player = 1, g_trigger = NegInf, g_opponent = Nimm\<rparr>"
  let ?w' = "\<lparr>w_inputs = [''x''], w_rng = sconst 0\<rparr>"
  have ok: "heaps_ok default_config (g_heaps ?g)" by (simp add: heaps_ok_def default_config_def)
  have p: "0 < sum_list (g_heaps ?g)" by simp
  have pt: "player_turn default_config ?g ?w = Inr (?g', ?w')"
    by (simp add: player_turn_def default_config_def human_turn_eval apply_move_def switch_player_def)
  have io: "player_turn_io default_config ?g ?w =
   [Print ''Heap 1: 1'', Print ''Heap 2: 0'', Print ''Heap 3: 3'',
    Print ''Please select a heap (1-3): '', Read ''2'',
    Print ''Error: heap 2 is already empty '', Print ''Please enter an integer between 1 and 3: '', Read ''1'',
    Print ''How many stones do you wish to remove? '', Read ''2'',
    Print ''Please enter an integer between 1 and 1: '', Read ''1'', Print '''']"
    by (simp add: player_turn_io_def default_config_def display_heaps_def heap_line_def py_str_int_def
                  py_str.simps upt_rec human_turn_io_def input_heap_io_def input_heap_loop_io.simps
                  heap_invalid_output_def heap_prompt_def heap_reprompt_def input_heap_def
                  input_heap_loop.simps heap_invalid_def input_stones_io_def input_stones_loop_io.simps
                  stones_prompt_def stones_reprompt_def stones_invalid_def char_of_def bit_0
                  py_parse_defs py_getitem_def)
  from player_turn_io_reads [where cfg = default_config and g = ?g and w = ?w and g' = ?g' and w' = ?w'
      and e = EOFError] ok p pt io
  show ?thesis by simp
qed

lemma choose_opponent_loop_io_reads:
  "prompted (choose_opponent_loop_io s inputs) \<and>
   (choose_opponent_loop s inputs = Inr (opp, rest) \<longrightarrow> reads (choose_opponent_loop_io s inputs) @ rest = inputs) \<and>
   (choose_opponent_loop s inputs = Inl e \<longrightarrow> reads (choose_opponent_loop_io s inputs) = inputs)"
proof (induction s inputs rule: choose_opponent_loop.induct)
  case (1 s inputs)
  show ?case
    unfolding choose_opponent_loop.simps [of s inputs] choose_opponent_loop_io.simps [of s inputs]
    using 1 by (auto split: list.splits)
qed

lemma setup_game_io_reads:
  assumes "valid_config cfg"
  shows "prompted (setup_game_io cfg w) \<and>
         (setup_game cfg w = Inr (g, w') \<longrightarrow> reads (setup_game_io cfg w) @ w_inputs w' = w_inputs w) \<and>
         (setup_game cfg w = Inl e \<longrightarrow> reads (setup_game_io cfg w) = w_inputs w)"
proof -
  have co: "prompted (choose_opponent_io inputs) \<and>
      (choose_opponent inputs = Inr (opp, rest) \<longrightarrow> reads (choose_opponent_io inputs) @ rest = inputs) \<and>
      (choose_opponent inputs = Inl e \<longrightarrow> reads (choose_opponent_io inputs) = inputs)" for inputs opp rest e
    using choose_opponent_loop_io_reads
    by (cases inputs) (simp_all add: choose_opponent_def choose_opponent_io_def)
  have "prompted (setup_game_io cfg w)"
    using co by (auto simp: setup_game_io_def prompted_append split: sum.splits)
  moreover have "reads (setup_game_io cfg w) @ w_inputs w' = w_inputs w" if "setup_game cfg w = Inr (g, w')"
    using setup_game_cases [OF that] co by (auto simp: setup_game_io_def)
  moreover have "reads (setup_game_io cfg w) = w_inputs w" if "setup_game cfg w = Inl e"
  proof -
    obtain hs ds1 where sh: "set_heaps cfg (w_rng w) = Inr (hs, ds1)"
      using set_heaps_total [OF assms] by blast
    from trigger_bounds_ordered [OF assms set_heaps_ok [OF assms sh] set_heaps_bounded [OF sh]]
    obtain lo hi where "py_int_float_times (error_min cfg) (sum_list hs) = Inr lo"
      "py_int_float_times (error_max cfg) (sum_list hs) = Inr hi" "lo \<le> hi" by blast
    moreover from \<open>lo \<le> hi\<close> obtain t ds2 where "randint lo hi ds1 = Inr (t, ds2)"
      by (simp add: randint_def)
    ultimately show ?thesis using sh co setup_game_Inl_choose_opponent [OF assms that]
      by (simp add: setup_game_io_def)
  qed
  ultimately show ?thesis by blast
qed

lemma game_loop_io_reads:
  assumes "heaps_ok cfg (g_heaps g)"
  shows "prompted (game_loop_io cfg g w) \<and>
         (game_loop cfg g w = Inr (g', w') \<longrightarrow> reads (game_loop_io cfg g w) @ w_inputs w' = w_inputs w) \<and>
         (game_loop cfg g w = Inl e \<longrightarrow> reads (game_loop_io cfg g w) = w_inputs w)"
  using assms
proof (induction cfg g w rule: game_loop.induct)
  case (1 cfg g w)
  show ?case
  proof (cases "0 < sum_list (g_heaps g)")
    case False
    have "game_loop_io cfg g w = []" using False by (simp add: game_loop_io.simps [of cfg g w])
    moreover have "game_loop cfg g w = Inr (g, w)" using False by (rule game_loop_stop)
    ultimately show ?thesis by (simp only:) simp
  next
    case True
    show ?thesis
    proof (cases "player_turn cfg g w")
      case (Inl e')
      with player_turn_io_reads [OF "1.prems" True, of w _ _ e'] game_loop_raise [OF True Inl] True
      show ?thesis by (simp add: game_loop_io.simps [of cfg g w])
    next
      case (Inr p)
      then obtain g1 w1 where pt: "player_turn cfg g w = Inr (g1, w1)" by (cases p) auto
      have ok1: "heaps_ok cfg (g_heaps g1)"
        using turn_step_heaps_ok [OF player_turn_step [OF True pt] "1.prems"] .
      note ih = "1.IH" [OF True pt refl ok1]
      note one = player_turn_io_reads [OF "1.prems" True, of w g1 w1]
      show ?thesis
        using ih one pt game_loop_turn [OF True pt] True
        by (auto simp: game_loop_io.simps [of cfg g w] prompted_append)
    qed
  qed
qed

text \<open>
  C33: on the computer's ply the console shows the heaps
  as they were, then announces one move, and that move is the one the ply makes:
  the heaps after the ply are the announced move applied to the heaps before it.
  Nothing is read from stdin.
\<close>

theorem cpu_turn_announces_move:
  assumes "g_player g = cpu_player cfg" and "player_turn cfg g w = Inr (g', w')"
  shows "\<exists>mv. player_turn_io cfg g w =
              map Print (display_heaps cfg (g_heaps g) @ cpu_move_message (g_opponent g) mv) \<and>
              g_heaps g' = apply_move (g_heaps g) mv \<and> w_inputs w' = w_inputs w"
proof -
  obtain hs t' ds' where ct: "cpu_turn cfg (g_heaps g) (g_trigger g) (g_opponent g) (w_rng w) = Inr ((hs, t'), ds')"
    and g': "g' = g\<lparr>g_heaps := hs, g_trigger := t', g_player := switch_player (g_player g)\<rparr>"
    and w': "w' = w\<lparr>w_rng := ds'\<rparr>"
    using assms by (auto simp: player_turn_def split: sum.splits)
  from cpu_turn_io_move [OF ct] assms(1) g' w' show ?thesis
    by (auto simp: player_turn_io_def)
qed


theorem cpu_turn_announces_move_witness:
  "player_turn default_config \<lparr>g_heaps = [1, 2, 4], g_player = 1, g_trigger = NegInf, g_opponent = Nimm\<rparr>
     \<lparr>w_inputs = [''x''], w_rng = sconst 0\<rparr> =
   Inr (\<lparr>g_heaps = [1, 2, 3], g_player = 2, g_trigger = NegInf, g_opponent = Nimm\<rparr>,
        \<lparr>w_inputs = [''x''], w_rng = sconst 0\<rparr>) \<and>
   (\<exists>mv. player_turn_io default_config \<lparr>g_heaps = [1, 2, 4], g_player = 1, g_trigger = NegInf, g_opponent = Nimm\<rparr>
       \<lparr>w_inputs = [''x''], w_rng = sconst 0\<rparr> =
     map Print (display_heaps default_config [1, 2, 4] @ cpu_move_message Nimm mv) \<and>
     [1, 2, 3] = apply_move [1, 2, 4] mv)"
proof -
  let ?g = "\<lparr>g_heaps = [1, 2, 4], g_player = 1, g_trigger = NegInf, g_opponent = Nimm\<rparr>"
  let ?w = "\<lparr>w_inputs = [''x''], w_rng = sconst 0\<rparr>"
  let ?g' = "\<lparr>g_heaps = [1, 2, 3], g_player = 2, g_trigger = NegInf, g_opponent = Nimm\<rparr>"
  have c: "g_player ?g = cpu_player default_config" by (simp add: default_config_def)
  have pt: "player_turn default_config ?g ?w = Inr (?g', ?w)"
    by (simp add: player_turn_def cpu_turn_def play_correctly_def nimm_sum_def default_config_def upt_rec
                  apply_move_def switch_player_def)
  from cpu_turn_announces_move [OF c pt] pt show ?thesis by simp
qed

text \<open>
  C32: the console of a whole session. With a valid configuration,
  every line \<open>main\<close> reads from stdin is read right after a printed prompt (or an
  error line), and the lines read are exactly the lines \<open>main\<close> consumes: a run that
  returns has read the input it took and printed the winner's announcement last;
  a run that raises EOFError has read all of stdin.
\<close>

theorem main_transcript:
  assumes "valid_config cfg"
  shows "prompted (main_io cfg w) \<and>
         (main cfg w = Inr (msg, g', w') \<longrightarrow>
            reads (main_io cfg w) @ w_inputs w' = w_inputs w \<and> last (main_io cfg w) = Print msg) \<and>
         (main cfg w = Inl e \<longrightarrow> reads (main_io cfg w) = w_inputs w)"
proof (cases "setup_game cfg w")
  case (Inl e')
  with setup_game_io_reads [OF assms, of w _ _ e'] show ?thesis
    by (auto simp: main_def main_io_def)
next
  case (Inr p)
  then obtain g w1 where sg: "setup_game cfg w = Inr (g, w1)" by (cases p) auto
  have ok: "heaps_ok cfg (g_heaps g)" using setup_game_inv [OF assms sg] by (simp add: game_inv_def)
  note s1 = setup_game_io_reads [OF assms, of w g w1]
  note l1 = game_loop_io_reads [OF ok, of w1]
  show ?thesis
    using sg s1 l1 by (auto simp: main_def main_io_def prompted_append split: sum.splits)
qed

theorem main_transcript_witness:
  "valid_config small_config \<and>
   main small_config \<lparr>w_inputs = [''2''], w_rng = 3 ## sconst 0\<rparr> = Inl EOFError \<and>
   prompted (main_io small_config \<lparr>w_inputs = [''2''], w_rng = 3 ## sconst 0\<rparr>) \<and>
   reads (main_io small_config \<lparr>w_inputs = [''2''], w_rng = 3 ## sconst 0\<rparr>) = [''2'']"
proof -
  have t: "player_turn small_config (nymm_state [3, 3] 2 (Threshold 4)) \<lparr>w_inputs = [], w_rng = sconst 0\<rparr> =
      Inl EOFError"
    by (simp add: player_turn_def human_turn_def input_heap_def default_config_def)
  have m: "main small_config \<lparr>w_inputs = [''2''], w_rng = 3 ## sconst 0\<rparr> = Inl EOFError"
    using game_loop_raise [OF _ t] by (simp add: main_def small_setup)
  have v: "valid_config small_config" by (simp add: valid_config_def default_config_def)
  from main_transcript [OF v, of "\<lparr>w_inputs = [''2''], w_rng = 3 ## sconst 0\<rparr>" _ _ _ EOFError] m v
  show ?thesis by simp
qed

end
