(* ===== verification/Spec2Isabelle.thy ===== *)
theory Spec2Isabelle
  imports Strategy Reporter Console
begin

text \<open>
  A verification development of the game ``The Unbeatable Dr. Nimm and The Magnanimous
  Dr. Nymm'', the Python module src/unbeatable.py. The human and the computer take
  turns removing stones from \<open>N_HEAPS\<close> heaps; whoever takes the last stone wins.
  The computer is either Dr. Nimm, who plays the XOR (``nimm sum'') strategy perfectly,
  or Dr. Nymm, who plays it too except for one deliberate mistake once the number of
  stones left drops below a random trigger.

  \<^bold>\<open>The program and its model.\<close> The module is a set of free functions passing
  the heap list, the player, the error trigger and the opponent name around; the model
  is a shallow embedding of each of them, theory by theory, in the order of the imports:

  \<^item> Prelude: the XOR of a list of Python ints (\<open>xor_list\<close>, a fold of \<open>XOR\<close> on
    \<open>int\<close>), \<open>first_index\<close> and the generic lemmas on them, among them the
    nimm-sum facts every winning-strategy proof uses (\<open>xor_less_self\<close>,
    \<open>qualifying_heap_exists\<close>), and the count of residues modulo \<open>m\<close>
    (\<open>card_mod_class\<close>). The component theories also name the definitions that
    evaluate a concrete run as \<open>lemmas\<close> bundles (\<open>py_parse_defs\<close>,
    \<open>human_turn_eval\<close>, \<open>choose_opponent_eval\<close>, \<open>setup_game_eval\<close>).
  \<^item> Builtins: the Python builtins the module calls. Exceptions are values of
    \<open>py_error\<close> (ValueError, IndexError, EOFError) on the left of a sum type; the
    module \<open>random\<close> is a stream of natural numbers, \<open>randint lo hi\<close> taking the
    next one modulo \<open>hi - lo + 1\<close> (every value of the range is reachable, lemma
    \<open>randint_onto\<close>), and raw draws uniform modulo the size of the range give
    uniform values (\<open>randint_uniform\<close>), so that every theorem holds for every
    sequence of draws;
    \<open>max\<close>, \<open>list.index\<close>, \<open>xs[i]\<close>, \<open>str.isdigit\<close> (ASCII digits), \<open>int\<close>
    and \<open>str\<close> of decimal strings.
  \<^item> PyFloat: IEEE-754 doubles as far as line 221 uses them: \<open>float(n)\<close> of an int,
    the product rounded to 53 significant bits (to nearest, ties to even; infinite from
    \<open>2 ^ 1024\<close>), \<open>int()\<close> truncating towards zero, with OverflowError and
    ValueError where Python raises them. Rounding is computed on integers (bit length,
    shift, round half to even) and shown monotone in the exact value.
  \<^item> HeapState: the configuration constants of lines 28--40 as the record
    \<open>config\<close> (\<open>default_config\<close> holds the shipped values), the opponent and the
    trigger (\<open>float("-inf")\<close> is the constructor \<open>NegInf\<close>), the record \<open>game\<close>
    of the four variables of \<open>main\<close>, \<open>switch_player\<close>, the loop computing the nimm
    sum (\<open>nimm_sum\<close>, lines 124--126, 145--147, 240--242), \<open>cpu_losing\<close> and the
    heap update \<open>heaps[heap] = heaps[heap] - stones_taken\<close> (\<open>apply_move\<close>).
  \<^item> NimmSum: \<open>play_correctly\<close> (lines 123--132) and \<open>choose_random\<close> (159--162).
  \<^item> Mistake: \<open>make_mistake\<close> (lines 144--156).
  \<^item> HumanInput: \<open>human_turn\<close>, \<open>input_heap\<close>, \<open>input_stones\<close>,
    \<open>heap_invalid\<close>, \<open>stones_invalid\<close>, \<open>choose_opponent\<close>,
    \<open>opponent_invalid\<close> (lines 165--199, 246--260). Standard input is the list of
    lines not read yet; \<open>input()\<close> on an empty list raises EOFError, and each
    re-prompt loop is a function recursive on that list, so it terminates.
  \<^item> Turn: \<open>cpu_turn\<close> (lines 90--99) and \<open>player_turn\<close> (67--74), with the
    record \<open>world\<close> of what is left of standard input and of the random stream, and the
    ply as an inductive relation \<open>turn_step\<close> over any legal human move and any draws.
  \<^item> Session: \<open>set_heaps\<close> (231--236), \<open>setup_game\<close> (219--227), the loop of
    \<open>main\<close> as the terminating function \<open>game_loop\<close> (55--59; its measure is the
    number of stones, which every ply decreases), \<open>announce_winner\<close> (288--298,
    returning the line it prints) and \<open>main\<close>.
  \<^item> Strategy: the game as a state machine (\<open>reachable\<close>: what \<open>setup_game\<close>
    returns, closed under \<open>turn_step\<close>), its invariant \<open>game_inv\<close>, traces of plies
    (\<open>turn_trace\<close>), the runs in which the human copies the engine
    (\<open>engine_step\<close>), and concrete runs of the program.
  \<^item> Reporter: \<open>display_heaps\<close> (lines 202--204) and the announcement of the
    computer's move (lines 96--97) as functions returning the printed lines, and a
    reader of the heap display.
  \<^item> Console: the output and the input of the program in order, as a transcript of
    events \<open>Print\<close> (a \<open>print\<close>, or the prompt \<open>input\<close> shows) and \<open>Read\<close> (a
    line of standard input). There is one transcript function per function of the
    source that prints or reads (\<open>input_heap_io\<close>, \<open>input_stones_io\<close>,
    \<open>human_turn_io\<close>, \<open>cpu_turn_io\<close>, \<open>player_turn_io\<close>,
    \<open>choose_opponent_io\<close>, \<open>setup_game_io\<close>, \<open>game_loop_io\<close>, \<open>main_io\<close>), with the
    prompts, the error line of \<open>heap_invalid\<close> and the welcome messages of
    \<open>display_intro\<close> (lines 264--280). Each follows the control flow of the function
    that changes the state, so the transcript of a call and its result are two views
    of the same execution.
  \<^item> This theory: the end-to-end guarantees of \<open>main\<close> and the worked example of
    the spec.

  The Python lists are mutated in place and returned; since every caller rebinds the
  variable to the returned list and no other reference is kept, the model passes them
  by value. Heap sizes are Python ints, unbounded, so they are \<open>int\<close>; the float
  constants \<open>ERROR_MIN\<close> and \<open>ERROR_MAX\<close> are the doubles nearest to 0.3 and 0.7
  (both slightly below 3/10 and 7/10), and the trigger bounds are computed as Python
  computes them, in double precision: \<open>int(0.7*90)\<close> is 62, not 63. A valid
  configuration keeps the heap total below \<open>2 ^ 1000\<close>, so that \<open>float(sum(heaps))\<close>
  cannot overflow. List accesses
  \<open>heaps[i]\<close> are HOL's \<open>heaps ! i\<close> where the index is in range on every
  well-formed heap list (the invariant \<open>heaps_ok\<close> and \<open>legal_move\<close> show it);
  where the code indexes with a value read from the user the model checks the range
  and raises IndexError as Python would (\<open>py_getitem\<close>).

  \<^bold>\<open>What is proved.\<close> NimmSum: a legal move to a position of nimm sum zero
  exists exactly when the nimm sum is not zero; \<open>play_correctly\<close> makes such a move
  whenever it exists (legal, nimm sum 0 afterwards, no random draw), on the lowest
  qualifying heap, and falls back to \<open>choose_random\<close> exactly when the nimm sum is 0;
  \<open>choose_random\<close> moves on the first largest heap and can remove exactly 1 to its
  size stones, each for the same number of draws (uniformly, as spec 4.1 asks).
  Session: with random heaps, \<open>set_heaps\<close> returns exactly the lists of
  \<open>N_HEAPS\<close> sizes in range. Reporter: the heap display reads back as the heap list.
  Mistake: \<open>make_mistake\<close> is the engine's move off by one stone,
  always legal, hands over a non-zero nimm sum whenever it does not fall back, and falls
  back exactly in the positions \<open>fallback_position\<close> describes, which are more than
  the comment and the spec say; on \<open>[1, 1, 1]\<close> its ``mistake'' is the winning
  move. HumanInput: the moves the human can enter are exactly the legal ones, the only
  exception is the end of input, and the opponent prompt selects Dr. Nimm on
  \<open>"02"\<close>. Turn: \<open>cpu_turn\<close> is total and legal on non-empty heaps, and
  \<open>player_turn\<close> refines the ply relation \<open>turn_step\<close>; one ply is type sound
  (well-formed heaps and player stay well formed, the only exception is EOFError).
  Strategy: the invariant
  \<open>game_inv\<close> is established by \<open>setup_game\<close> and kept by every ply; Dr. Nimm always
  wins; the human wins only after Dr. Nymm's mistake; the mistake fires at most once;
  after a mistake that leaves a non-zero nimm sum the human wins by copying the engine;
  the game ends within as many plies as there are stones; before his mistake Dr. Nymm
  plays exactly as Dr. Nimm (a simulation of the runs against Dr. Nymm by runs against
  Dr. Nimm); \<open>setup_game\<close> returns heaps
  and a trigger in their ranges and the right starting player, and every list of heaps
  in range with either opponent starts some session, so these theorems cover every
  game the program can play. Console: every line of standard input is read right after
  a prompt or an error line, the lines the transcript of \<open>main\<close> reads are exactly the
  lines \<open>main\<close> consumes, the winner's line is printed last, and on the computer's ply
  the announced move is the move applied. This theory: every run of
  \<open>main\<close> ends with all heaps empty and an announcement consistent with who moved
  last, Dr. Nimm's self-diagnostic message is unreachable, the only exception is
  EOFError; the trigger bounds come out of double-precision arithmetic (with a total of
  90 the largest trigger is 62, not the 63 the comment's 70 percent suggests, and an
  astronomically large total raises OverflowError); at the boundaries, an empty heap
  range makes \<open>main\<close> raise ValueError
  before any output, and heaps of size 0 end the game at once with the computer's
  victory; the worked example of spec section 8 runs as the spec says; and with the
  shipped configuration there is a run in which Dr. Nymm never makes his mistake, and
  one in which his mistake fires with one stone left and takes it.

  \<^bold>\<open>Bounds and fuel.\<close> No fuel is used: the re-prompt loops recurse on the finite
  input, the heap loops on lists, and the main loop on the number of stones. Concrete
  runs use small configurations (one heap of 1 stone, two heaps of 3, or random heaps
  in \<open>[1, 3]\<close> for the spec's example), which reach every branch the witnessed
  theorems need; the run of the shipped configuration draws 0 from the random stream
  throughout.

  \<^bold>\<open>Not modelled.\<close> Standard output is modelled as the transcript of Console,
  beside the state: no control flow depends on it, so \<open>player_turn\<close> and the others
  return the state and their \<open>_io\<close> companions return what they print. \<open>str.isdigit\<close>
  also accepts non-ASCII digits, on which \<open>int()\<close> may succeed or raise; the model
  accepts the ASCII digits only. The pseudo-random generator behind
  \<open>random.randint\<close> is Python's library and is not modelled: the model takes its raw
  draws as an arbitrary stream, and shows that uniform raw draws give uniform values.
\<close>

text \<open>
  Fixed heaps of 30 stones, a total of 90: \<open>int(0.3*90)\<close> is 27 and
  \<open>int(0.7*90)\<close> is 62 in double precision, where the exact 70 percent of 90 is 63.
\<close>

abbreviation config90 :: config where
  "config90 \<equiv> default_config\<lparr>random_heaps := False, default_heap := 30\<rparr>"

text \<open>The configuration and states of the worked example of spec section 8.\<close>

abbreviation example_config :: config where
  "example_config \<equiv> default_config\<lparr>heap_min := 1, heap_max := 3\<rparr>"

abbreviation nimm_state :: "heap_list \<Rightarrow> int \<Rightarrow> game" where
  "nimm_state hs p \<equiv> \<lparr>g_heaps = hs, g_player = p, g_trigger = Threshold 1, g_opponent = Nimm\<rparr>"

lemma main_Inr_cases:
  assumes "main cfg w = Inr (msg, g', w')"
  shows "\<exists>g w1. setup_game cfg w = Inr (g, w1) \<and> game_loop cfg g w1 = Inr (g', w') \<and>
           msg = announce_winner cfg (g_opponent g') (g_player g')"
  using assms by (auto simp: main_def split: sum.splits prod.splits)

lemma main_terminal:
  assumes "valid_config cfg" and "main cfg w = Inr (msg, g', w')"
  shows "reachable cfg g' \<and> sum_list (g_heaps g') = 0 \<and>
         msg = announce_winner cfg (g_opponent g') (g_player g')"
proof -
  from main_Inr_cases [OF assms(2)] obtain g w1 where
    s: "setup_game cfg w = Inr (g, w1)" and l: "game_loop cfg g w1 = Inr (g', w')" and
    m: "msg = announce_winner cfg (g_opponent g') (g_player g')" by blast
  from game_loop_reachable [OF assms(1) reachable.start [OF s]] l m show ?thesis by blast
qed

lemma default_run_setup:
  "setup_game default_config \<lparr>w_inputs = ''2'' # inputs, w_rng = sconst 0\<rparr> =
   Inr (nymm_state [15, 15, 15] 1 (Threshold 13), \<lparr>w_inputs = inputs, w_rng = sconst 0\<rparr>)"
  by (simp add: setup_game_eval default_config_def)

lemma default_run_loop:
  "game_loop default_config (nymm_state [15, 15, 15] 1 (Threshold 13))
     \<lparr>w_inputs = [''2'', ''15''], w_rng = sconst 0\<rparr> =
   Inr (nymm_state [0, 0, 0] 2 (Threshold 13), \<lparr>w_inputs = [], w_rng = sconst 0\<rparr>)"
proof -
  have t1: "player_turn default_config (nymm_state [15, 15, 15] 1 (Threshold 13))
      \<lparr>w_inputs = [''2'', ''15''], w_rng = sconst 0\<rparr> =
     Inr (nymm_state [0, 15, 15] 2 (Threshold 13), \<lparr>w_inputs = [''2'', ''15''], w_rng = sconst 0\<rparr>)"
    by (simp add: player_turn_def cpu_turn_def default_config_def play_correctly_def nimm_sum_def
        numeral_3_eq_3 apply_move_def switch_player_def)
  have t2: "player_turn default_config (nymm_state [0, 15, 15] 2 (Threshold 13))
      \<lparr>w_inputs = [''2'', ''15''], w_rng = sconst 0\<rparr> =
     Inr (nymm_state [0, 0, 15] 1 (Threshold 13), \<lparr>w_inputs = [], w_rng = sconst 0\<rparr>)"
    by (simp add: player_turn_def human_turn_eval default_config_def apply_move_def switch_player_def)
  have t3: "player_turn default_config (nymm_state [0, 0, 15] 1 (Threshold 13))
      \<lparr>w_inputs = [], w_rng = sconst 0\<rparr> =
     Inr (nymm_state [0, 0, 0] 2 (Threshold 13), \<lparr>w_inputs = [], w_rng = sconst 0\<rparr>)"
    by (simp add: player_turn_def cpu_turn_def default_config_def play_correctly_def nimm_sum_def
        numeral_3_eq_3 apply_move_def switch_player_def)
  show ?thesis
    using game_loop_turn [OF _ t1] game_loop_turn [OF _ t2] game_loop_turn [OF _ t3]
      game_loop_stop [of "nymm_state [0, 0, 0] 2 (Threshold 13)"] by simp
qed

lemma example_setup:
  "setup_game example_config \<lparr>w_inputs = [''1'', ''3'', ''3'', ''1'', ''1''], w_rng = 0 ## 1 ## 2 ## sconst 0\<rparr> =
   Inr (nimm_state [1, 2, 3] 2, \<lparr>w_inputs = [''3'', ''3'', ''1'', ''1''], w_rng = sconst 0\<rparr>)"
  by (simp add: setup_game_eval default_config_def)

lemma example_turns:
  "player_turn example_config (nimm_state [1, 2, 3] 2) \<lparr>w_inputs = [''3'', ''3'', ''1'', ''1''], w_rng = sconst 0\<rparr> =
     Inr (nimm_state [1, 2, 0] 1, \<lparr>w_inputs = [''1'', ''1''], w_rng = sconst 0\<rparr>) \<and>
   player_turn example_config (nimm_state [1, 2, 0] 1) \<lparr>w_inputs = [''1'', ''1''], w_rng = sconst 0\<rparr> =
     Inr (nimm_state [1, 1, 0] 2, \<lparr>w_inputs = [''1'', ''1''], w_rng = sconst 0\<rparr>) \<and>
   player_turn example_config (nimm_state [1, 1, 0] 2) \<lparr>w_inputs = [''1'', ''1''], w_rng = sconst 0\<rparr> =
     Inr (nimm_state [0, 1, 0] 1, \<lparr>w_inputs = [], w_rng = sconst 0\<rparr>) \<and>
   player_turn example_config (nimm_state [0, 1, 0] 1) \<lparr>w_inputs = [], w_rng = sconst 0\<rparr> =
     Inr (nimm_state [0, 0, 0] 2, \<lparr>w_inputs = [], w_rng = sconst 0\<rparr>)"
  by (simp add: player_turn_def cpu_turn_def play_correctly_def nimm_sum_def numeral_3_eq_3
      human_turn_eval default_config_def apply_move_def switch_player_def)

lemma example_loop:
  "game_loop example_config (nimm_state [1, 2, 3] 2) \<lparr>w_inputs = [''3'', ''3'', ''1'', ''1''], w_rng = sconst 0\<rparr> =
   Inr (nimm_state [0, 0, 0] 2, \<lparr>w_inputs = [], w_rng = sconst 0\<rparr>)"
  using example_turns game_loop_turn game_loop_stop [of "nimm_state [0, 0, 0] 2"] by simp

lemma wasted_turns:
  "player_turn default_config (nymm_state [15, 15, 15] 1 (Threshold 13))
      \<lparr>w_inputs = [''2'', ''3'', ''2'', ''11'', ''2'', ''1''], w_rng = sconst 0\<rparr> =
     Inr (nymm_state [0, 15, 15] 2 (Threshold 13), \<lparr>w_inputs = [''2'', ''3'', ''2'', ''11'', ''2'', ''1''], w_rng = sconst 0\<rparr>) \<and>
   player_turn default_config (nymm_state [0, 15, 15] 2 (Threshold 13))
      \<lparr>w_inputs = [''2'', ''3'', ''2'', ''11'', ''2'', ''1''], w_rng = sconst 0\<rparr> =
     Inr (nymm_state [0, 12, 15] 1 (Threshold 13), \<lparr>w_inputs = [''2'', ''11'', ''2'', ''1''], w_rng = sconst 0\<rparr>) \<and>
   player_turn default_config (nymm_state [0, 12, 15] 1 (Threshold 13))
      \<lparr>w_inputs = [''2'', ''11'', ''2'', ''1''], w_rng = sconst 0\<rparr> =
     Inr (nymm_state [0, 12, 12] 2 (Threshold 13), \<lparr>w_inputs = [''2'', ''11'', ''2'', ''1''], w_rng = sconst 0\<rparr>) \<and>
   player_turn default_config (nymm_state [0, 12, 12] 2 (Threshold 13))
      \<lparr>w_inputs = [''2'', ''11'', ''2'', ''1''], w_rng = sconst 0\<rparr> =
     Inr (nymm_state [0, 1, 12] 1 (Threshold 13), \<lparr>w_inputs = [''2'', ''1''], w_rng = sconst 0\<rparr>) \<and>
   player_turn default_config (nymm_state [0, 1, 12] 1 (Threshold 13))
      \<lparr>w_inputs = [''2'', ''1''], w_rng = sconst 0\<rparr> =
     Inr (nymm_state [0, 1, 1] 2 (Threshold 13), \<lparr>w_inputs = [''2'', ''1''], w_rng = sconst 0\<rparr>) \<and>
   player_turn default_config (nymm_state [0, 1, 1] 2 (Threshold 13))
      \<lparr>w_inputs = [''2'', ''1''], w_rng = sconst 0\<rparr> =
     Inr (nymm_state [0, 0, 1] 1 (Threshold 13), \<lparr>w_inputs = [], w_rng = sconst 0\<rparr>) \<and>
   player_turn default_config (nymm_state [0, 0, 1] 1 (Threshold 13))
      \<lparr>w_inputs = [], w_rng = sconst 0\<rparr> =
     Inr (nymm_state [0, 0, 0] 2 NegInf, \<lparr>w_inputs = [], w_rng = sconst 0\<rparr>)"
  by (simp add: player_turn_def cpu_turn_def play_correctly_def make_mistake_def nimm_sum_def numeral_3_eq_3
      choose_random_def py_max_def randint_def
      human_turn_eval default_config_def apply_move_def switch_player_def)

lemma config90_bounds:
  "py_int_float_times (error_min config90) 90 = Inr 27 \<and> py_int_float_times (error_max config90) 90 = Inr 62"
  by (simp add: default_config_def float_eval)

subsection \<open>End-to-end guarantees of main\<close>

text \<open>
  C14: every run of \<open>main\<close> that returns ends with all heaps empty,
  and the line it prints agrees with who moved last: against Dr. Nimm it is always the
  computer's victory, the human's victory over Dr. Nymm is announced only after his
  mistake has fired, and Dr. Nimm's self-diagnostic line (line 296) is never printed.
\<close>

theorem main_outcome:
  assumes "valid_config cfg" and "main cfg w = Inr (msg, g', w')"
  shows "sum_list (g_heaps g') = 0 \<and>
         (g_opponent g' = Nimm \<longrightarrow>
            msg = ''Another notch in the belt for artificial intelligence: I have beaten you!'') \<and>
         (msg = ''Congratulations my carboniferous comrade, you have beaten me!'' \<longrightarrow>
            g_opponent g' = Nymm \<and> g_trigger g' = NegInf) \<and>
         msg \<noteq> ''This....shouldn't be possible. You won. Please excuse Dr. Nimm while he runs a self-diagnostic.''"
proof -
  from main_terminal [OF assms] have r: "reachable cfg g'" and z: "sum_list (g_heaps g') = 0"
    and m: "msg = announce_winner cfg (g_opponent g') (g_player g')" by simp_all
  from reachable_terminal [OF assms(1) r z]
  have "(g_trigger g' \<noteq> NegInf \<longrightarrow> g_player g' \<noteq> cpu_player cfg) \<and>
        (g_opponent g' = Nimm \<longrightarrow> g_trigger g' \<noteq> NegInf)" by simp
  with z m show ?thesis by (cases "g_opponent g'") (auto simp: announce_winner_def)
qed

theorem main_outcome_witness:
  "valid_config nimm_config \<and>
   main nimm_config \<lparr>w_inputs = [''1''], w_rng = sconst 0\<rparr> =
     Inr (''Another notch in the belt for artificial intelligence: I have beaten you!'',
          \<lparr>g_heaps = [0], g_player = 2, g_trigger = Threshold 0, g_opponent = Nimm\<rparr>,
          \<lparr>w_inputs = [], w_rng = sconst 0\<rparr>) \<and>
   sum_list [0 :: int] = 0"
proof -
  have m: "main nimm_config \<lparr>w_inputs = [''1''], w_rng = sconst 0\<rparr> =
     Inr (''Another notch in the belt for artificial intelligence: I have beaten you!'',
          \<lparr>g_heaps = [0], g_player = 2, g_trigger = Threshold 0, g_opponent = Nimm\<rparr>,
          \<lparr>w_inputs = [], w_rng = sconst 0\<rparr>)"
    using nimm_setup nimm_loop by (simp add: main_def announce_winner_def default_config_def)
  have v: "valid_config nimm_config" by (simp add: valid_config_def default_config_def)
  from main_outcome [OF v m] m v show ?thesis by simp
qed



text \<open>
  C17: the trigger bounds are computed in double precision
  (line 221). With fixed heaps of 30 stones the triggers \<open>setup_game\<close> can return
  are exactly 27 to 62: \<open>0.7\<close> is a double slightly below 7/10, so 63, which is
  70 percent of the total of 90, is never chosen. With heaps of \<open>2 ^ 1024\<close> stones the
  total does not convert to a double and \<open>setup_game\<close> raises OverflowError.
\<close>

theorem setup_game_trigger_double:
  "((\<exists>w g w'. setup_game config90 w = Inr (g, w') \<and> g_trigger g = Threshold t) \<longleftrightarrow> 27 \<le> t \<and> t \<le> 62) \<and>
   setup_game (default_config\<lparr>random_heaps := False, default_heap := 2 ^ 1024\<rparr>) w = Inl OverflowError"
proof (intro conjI)
  show "setup_game (default_config\<lparr>random_heaps := False, default_heap := 2 ^ 1024\<rparr>) w = Inl OverflowError"
    by (simp add: setup_game_def set_heaps_def default_config_def replicate_numeral float_eval)
next
  show "(\<exists>w g w'. setup_game config90 w = Inr (g, w') \<and> g_trigger g = Threshold t) \<longleftrightarrow> 27 \<le> t \<and> t \<le> 62"
  proof
    assume "\<exists>w g w'. setup_game config90 w = Inr (g, w') \<and> g_trigger g = Threshold t"
    then obtain w g w' where s: "setup_game config90 w = Inr (g, w')" and t: "g_trigger g = Threshold t" by blast
    from setup_game_cases [OF s] obtain ds1 lo hi t' ds2 where
      sh: "set_heaps config90 (w_rng w) = Inr (g_heaps g, ds1)" and
      b: "py_int_float_times (error_min config90) (sum_list (g_heaps g)) = Inr lo"
         "py_int_float_times (error_max config90) (sum_list (g_heaps g)) = Inr hi" and
      r: "randint lo hi ds1 = Inr (t', ds2)" and tr: "g_trigger g = Threshold t'" by blast
    have "g_heaps g = [30, 30, 30]" using sh by (simp add: set_heaps_def default_config_def replicate_numeral)
    with b config90_bounds have "lo = 27" "hi = 62" by simp_all
    with randint_range [OF r] t tr show "27 \<le> t \<and> t \<le> 62" by simp
  next
    assume t: "27 \<le> t \<and> t \<le> 62"
    let ?w = "\<lparr>w_inputs = [''1''], w_rng = nat (t - 27) ## sconst 0\<rparr>"
    have r: "randint 27 62 (nat (t - 27) ## sconst 0) = Inr (t, sconst 0)" using randint_onto [of 27 t 62] t by simp
    have "setup_game config90 ?w =
          Inr (\<lparr>g_heaps = [30, 30, 30], g_player = 1, g_trigger = Threshold t, g_opponent = Nimm\<rparr>,
               \<lparr>w_inputs = [], w_rng = sconst 0\<rparr>)"
      using config90_bounds r
      by (simp add: setup_game_def set_heaps_def default_config_def replicate_numeral choose_opponent_eval
                    cpu_losing_def nimm_sum_def upt_rec)
    then show "\<exists>w g w'. setup_game config90 w = Inr (g, w') \<and> g_trigger g = Threshold t" by fastforce
  qed
qed

theorem setup_game_trigger_double_witness:
  "(\<exists>w g w'. setup_game config90 w = Inr (g, w') \<and> g_trigger g = Threshold 62) \<and>
   \<not> (\<exists>w g w'. setup_game config90 w = Inr (g, w') \<and> g_trigger g = Threshold 63)"
  using setup_game_trigger_double [of 62] setup_game_trigger_double [of 63] by simp

text \<open>
  C34: an empty heap range is fatal before any output. With
  random heaps and \<open>HEAP_MAX < HEAP_MIN\<close>, \<open>set_heaps\<close> calls
  \<open>random.randint\<close> on an empty range and \<open>main\<close> raises ValueError before it
  prints or reads anything.
\<close>

theorem main_empty_heap_range:
  assumes "random_heaps cfg" and "heap_max cfg < heap_min cfg" and "0 < n_heaps cfg"
  shows "main cfg w = Inl ValueError \<and> main_io cfg w = []"
proof -
  have "set_heaps cfg (w_rng w) = Inl ValueError"
    using assms by (simp add: set_heaps_def upt_conv_Cons randint_def)
  then show ?thesis by (simp add: main_def main_io_def setup_game_def setup_game_io_def)
qed

theorem main_empty_heap_range_witness:
  "random_heaps default_config \<and> heap_max (default_config\<lparr>heap_min := 26\<rparr>) < heap_min (default_config\<lparr>heap_min := 26\<rparr>) \<and>
   main (default_config\<lparr>heap_min := 26\<rparr>) \<lparr>w_inputs = [''1''], w_rng = sconst 0\<rparr> = Inl ValueError \<and>
   main_io (default_config\<lparr>heap_min := 26\<rparr>) \<lparr>w_inputs = [''1''], w_rng = sconst 0\<rparr> = []"
  using main_empty_heap_range [of "default_config\<lparr>heap_min := 26\<rparr>" "\<lparr>w_inputs = [''1''], w_rng = sconst 0\<rparr>"]
  by (simp add: default_config_def)

text \<open>
  C35: a game without stones. With fixed heaps of size 0 (a valid
  configuration), the nimm sum is 0, so the human is made to start; the loop never
  runs, and \<open>main\<close> prints the opponent prompt, the welcome message and then the
  computer's victory, although nobody has moved. The one random draw is the trigger's.
\<close>

theorem main_no_stones:
  assumes "valid_config cfg" and "\<not> random_heaps cfg" and "default_heap cfg = 0"
    and "choose_opponent (w_inputs w) = Inr (opp, rest)"
  shows "main cfg w =
           Inr (announce_winner cfg opp (switch_player (cpu_player cfg)),
                \<lparr>g_heaps = replicate (n_heaps cfg) 0, g_player = switch_player (cpu_player cfg),
                 g_trigger = Threshold 0, g_opponent = opp\<rparr>,
                \<lparr>w_inputs = rest, w_rng = stl (w_rng w)\<rparr>) \<and>
         announce_winner cfg opp (switch_player (cpu_player cfg)) =
           (if opp = Nymm
            then ''I'm sorry, it appears your human thinking organ has malfunctioned and I have prevailed. Better luck next time!''
            else ''Another notch in the belt for artificial intelligence: I have beaten you!'') \<and>
         main_io cfg w = choose_opponent_io (w_inputs w) @
           map Print (display_intro opp @ [announce_winner cfg opp (switch_player (cpu_player cfg))])"
proof -
  have ok: "heaps_ok cfg (replicate (n_heaps cfg) 0)" by (simp add: heaps_ok_def)
  have z: "py_int_float_times (error_min cfg) 0 = Inr 0" "py_int_float_times (error_max cfg) 0 = Inr 0"
    using assms(1) by (simp_all add: valid_config_def py_int_float_times_0)
  have cl: "cpu_losing cfg (replicate (n_heaps cfg) 0)"
    by (simp add: cpu_losing_def heaps_ok_nimm_sum [OF ok] xor_list_replicate_0)
  have cp: "cpu_player cfg \<in> {1, 2}" using assms(1) by (simp add: valid_config_def)
  have ne: "switch_player (cpu_player cfg) \<noteq> cpu_player cfg" using switch_player_neq [OF cp] .
  have sg: "setup_game cfg w =
      Inr (\<lparr>g_heaps = replicate (n_heaps cfg) 0, g_player = switch_player (cpu_player cfg),
            g_trigger = Threshold 0, g_opponent = opp\<rparr>, \<lparr>w_inputs = rest, w_rng = stl (w_rng w)\<rparr>)"
    using assms(2,3,4) cl z by (simp add: setup_game_def set_heaps_def randint_def sum_list_replicate)
  have gl: "game_loop cfg \<lparr>g_heaps = replicate (n_heaps cfg) 0, g_player = switch_player (cpu_player cfg),
            g_trigger = Threshold 0, g_opponent = opp\<rparr> \<lparr>w_inputs = rest, w_rng = stl (w_rng w)\<rparr> =
      Inr (\<lparr>g_heaps = replicate (n_heaps cfg) 0, g_player = switch_player (cpu_player cfg),
            g_trigger = Threshold 0, g_opponent = opp\<rparr>, \<lparr>w_inputs = rest, w_rng = stl (w_rng w)\<rparr>)"
    by (simp add: game_loop_stop sum_list_replicate)
  have gio: "game_loop_io cfg \<lparr>g_heaps = replicate (n_heaps cfg) 0, g_player = switch_player (cpu_player cfg),
            g_trigger = Threshold 0, g_opponent = opp\<rparr> \<lparr>w_inputs = rest, w_rng = stl (w_rng w)\<rparr> = []"
    by (simp add: game_loop_io.simps sum_list_replicate)
  have sio: "setup_game_io cfg w = choose_opponent_io (w_inputs w) @ map Print (display_intro opp)"
    using assms(2,3,4) z by (simp add: setup_game_io_def set_heaps_def randint_def sum_list_replicate)
  show ?thesis
    using sg gl gio sio ne by (simp add: main_def main_io_def announce_winner_def)
qed

theorem main_no_stones_witness:
  "valid_config (default_config\<lparr>random_heaps := False, default_heap := 0\<rparr>) \<and>
   main (default_config\<lparr>random_heaps := False, default_heap := 0\<rparr>) \<lparr>w_inputs = [''1''], w_rng = sconst 0\<rparr> =
     Inr (''Another notch in the belt for artificial intelligence: I have beaten you!'',
          \<lparr>g_heaps = [0, 0, 0], g_player = 2, g_trigger = Threshold 0, g_opponent = Nimm\<rparr>,
          \<lparr>w_inputs = [], w_rng = sconst 0\<rparr>)"
proof -
  have v: "valid_config (default_config\<lparr>random_heaps := False, default_heap := 0\<rparr>)"
    by (simp add: valid_config_def default_config_def)
  have co: "choose_opponent (w_inputs \<lparr>w_inputs = [''1''], w_rng = sconst 0\<rparr>) = Inr (Nimm, [])"
    by (simp add: choose_opponent_eval)
  from main_no_stones [OF v _ _ co] v show ?thesis
    by (simp add: default_config_def switch_player_def numeral_3_eq_3)
qed



end
